theory Spec2Isabelle
  imports Main "HOL-Library.Finite_Map"
begin

section \<open>Naming: \<open>sanitizeFilename\<close> (validate.ts)\<close>

text \<open>
  A JavaScript string is a sequence of code units. A \<^typ>\<open>char\<close> stands for a code unit
  below 256 (ASCII and Latin-1), which is where the functions below are exact;
  \<open>toLowerCase\<close> maps \<open>A\<close>-\<open>Z\<close> and the Latin-1 capitals to their small letters.
\<close>

definition is_lower_alnum :: "char \<Rightarrow> bool" where
  \<comment> \<open>the character class \<open>[a-z0-9]\<close>\<close>
  "is_lower_alnum c = (c \<in> set ''abcdefghijklmnopqrstuvwxyz0123456789'')"

definition is_hyphen :: "char \<Rightarrow> bool" where
  "is_hyphen c = (c = CHR ''-'')"

definition lower_char :: "char \<Rightarrow> char" where
  "lower_char c =
     (case map_of (zip ''ABCDEFGHIJKLMNOPQRSTUVWXYZ'' ''abcdefghijklmnopqrstuvwxyz'') c of
        Some l \<Rightarrow> l
      | None \<Rightarrow>
          (let n = (of_char c :: nat)
           in if 192 \<le> n \<and> n \<le> 222 \<and> n \<noteq> 215 then char_of (n + 32) else c))"

definition toLowerCase :: "string \<Rightarrow> string" where
  "toLowerCase s = map lower_char s"

text \<open>
  \<open>.replace(/[^a-z0-9]+/g, '-')\<close>: scanning from the left, every maximal run of
  characters outside \<open>[a-z0-9]\<close> becomes one hyphen.
\<close>

function replace_non_alnum_runs :: "string \<Rightarrow> string" where
  "replace_non_alnum_runs [] = []"
| "replace_non_alnum_runs (c # cs) =
     (if is_lower_alnum c then c # replace_non_alnum_runs cs
      else CHR ''-'' # replace_non_alnum_runs (dropWhile (\<lambda>d. \<not> is_lower_alnum d) cs))"
  by pat_completeness auto
termination
  by (relation "measure length") (auto simp: less_Suc_eq_le length_dropWhile_le)

text \<open>
  \<open>.replace(/^-+|-+$/g, '')\<close>: the first alternative removes the hyphens the string
  starts with, the second the run of hyphens that reaches the end of the string.
\<close>

definition strip_hyphens :: "string \<Rightarrow> string" where
  "strip_hyphens s = rev (dropWhile is_hyphen (rev (dropWhile is_hyphen s)))"

text \<open>\<open>.replace(/-+/g, '-')\<close>: every maximal run of hyphens becomes one hyphen.\<close>

function collapse_hyphens :: "string \<Rightarrow> string" where
  "collapse_hyphens [] = []"
| "collapse_hyphens (c # cs) =
     (if is_hyphen c then CHR ''-'' # collapse_hyphens (dropWhile is_hyphen cs)
      else c # collapse_hyphens cs)"
  by pat_completeness auto
termination
  by (relation "measure length") (auto simp: less_Suc_eq_le length_dropWhile_le)

definition substring0 :: "nat \<Rightarrow> string \<Rightarrow> string" where
  \<comment> \<open>\<open>s.substring(0, n)\<close>\<close>
  "substring0 n s = take n s"

text \<open>The cleaning steps of \<open>sanitizeFilename\<close>, before the \<open>||\<close> fallback.\<close>

definition clean_name :: "string \<Rightarrow> string" where
  "clean_name name =
     substring0 100 (collapse_hyphens (strip_hyphens
       (replace_non_alnum_runs (toLowerCase name))))"

definition sanitizeFilename :: "string \<Rightarrow> string" where
  \<comment> \<open>the empty string is falsy, so \<open>||\<close> picks the fallback exactly then\<close>
  "sanitizeFilename name =
     (let s = clean_name name in if s = [] then ''data-product-prd'' else s)"

text \<open>The properties a slug is specified to have.\<close>

definition slug_chars :: "string \<Rightarrow> bool" where
  \<comment> \<open>matches \<open>^[a-z0-9-]*$\<close>\<close>
  "slug_chars s = list_all (\<lambda>c. is_lower_alnum c \<or> is_hyphen c) s"

fun no_double_hyphen :: "string \<Rightarrow> bool" where
  "no_double_hyphen (c # d # cs) = (\<not> (is_hyphen c \<and> is_hyphen d) \<and> no_double_hyphen (d # cs))"
| "no_double_hyphen cs = True"

definition no_leading_hyphen :: "string \<Rightarrow> bool" where
  "no_leading_hyphen s = (case s of [] \<Rightarrow> True | c # _ \<Rightarrow> \<not> is_hyphen c)"

definition no_trailing_hyphen :: "string \<Rightarrow> bool" where
  "no_trailing_hyphen s = no_leading_hyphen (rev s)"

definition well_formed_slug :: "string \<Rightarrow> bool" where
  "well_formed_slug s =
     (length s \<le> 100 \<and> slug_chars s \<and> no_leading_hyphen s \<and> no_trailing_hyphen s
      \<and> no_double_hyphen s)"

definition filename_safe :: "string \<Rightarrow> bool" where
  \<comment> \<open>non-empty, lowercase letters, digits and hyphens only\<close>
  "filename_safe s = (s \<noteq> [] \<and> slug_chars s)"

definition long_name :: string where
  \<comment> \<open>99 letters, a hyphen, one more letter: 101 characters\<close>
  "long_name = replicate 99 CHR ''a'' @ ''-b''"

section \<open>JavaScript values\<close>

text \<open>
  The registry and its entries are untyped (\<open>any\<close>) values that come out of
  \<open>JSON.parse\<close>. Objects and arrays are references into a heap, so that two variables
  can name the same array, as they do in \<open>upsertRegistry\<close>. A number is carried as the
  value it denotes; the program never computes with one, and \<open>JSON.parse\<close> yields no
  \<open>NaN\<close>, so \<open>===\<close> is equality of values throughout.
\<close>

type_synonym addr = nat

datatype val = Undefined | Null | Bool bool | Num int | Str string | Ref addr

text \<open>
  An object is the finite map of its own properties; the order of the keys, which only
  serialisation could show, is not kept.
\<close>

datatype cell = Obj "(string, val) fmap" | Arr "val list"

datatype js_error = TypeError string | Error string | NonError

datatype call =
    GetFile string string
  | CreateBranch string string
  | CreateOrUpdateFile string string string string
  | CreatePullRequest string string string string

text \<open>
  What the program can change: the heap, the clock (\<open>ticks\<close> counts the readings taken)
  and the remote repository (\<open>calls\<close> lists the client's calls, oldest first).
\<close>

record world =
  heap :: "cell list"
  ticks :: nat
  calls :: "call list"

definition cell_at :: "cell list \<Rightarrow> addr \<Rightarrow> cell option" where
  "cell_at h a = (if a < length h then Some (h ! a) else None)"

definition alloc :: "cell \<Rightarrow> world \<Rightarrow> val \<times> world" where
  "alloc c w = (Ref (length (heap w)), w\<lparr>heap := heap w @ [c]\<rparr>)"

text \<open>
  \<open>new Date().toISOString()\<close>: every evaluation reads the clock anew; \<open>now i\<close> is the
  text of reading number \<open>i\<close>.
\<close>

definition new_Date_toISOString :: "(nat \<Rightarrow> string) \<Rightarrow> world \<Rightarrow> string \<times> world" where
  "new_Date_toISOString now w = (now (ticks w), w\<lparr>ticks := Suc (ticks w)\<rparr>)"

definition quoted :: "string \<Rightarrow> string" where
  "quoted k = [CHR 0x27] @ k @ [CHR 0x27]"

text \<open>
  Reading property \<open>k\<close> of \<open>v\<close>, for the keys the program reads (\<open>items\<close>, \<open>prd_path\<close>,
  \<open>product_name\<close>): none of them is an index, \<open>length\<close> or an inherited member, so only
  an object can have one. Reading a property of \<open>undefined\<close> or \<open>null\<close> throws.
\<close>

definition get_prop :: "cell list \<Rightarrow> val \<Rightarrow> string \<Rightarrow> js_error + val" where
  "get_prop h v k =
     (case v of
        Undefined \<Rightarrow>
          Inl (TypeError (''Cannot read properties of undefined (reading '' @ quoted k @ '')''))
      | Null \<Rightarrow>
          Inl (TypeError (''Cannot read properties of null (reading '' @ quoted k @ '')''))
      | Ref a \<Rightarrow>
          (case cell_at h a of
             Some (Obj fs) \<Rightarrow> Inr (case fmlookup fs k of Some x \<Rightarrow> x | None \<Rightarrow> Undefined)
           | _ \<Rightarrow> Inr Undefined)
      | _ \<Rightarrow> Inr Undefined)"

definition isArray :: "cell list \<Rightarrow> val \<Rightarrow> bool" where
  "isArray h v =
     (case v of
        Ref a \<Rightarrow> (case cell_at h a of Some (Arr xs) \<Rightarrow> True | _ \<Rightarrow> False)
      | _ \<Rightarrow> False)"

definition elems :: "cell list \<Rightarrow> val \<Rightarrow> val list" where
  \<comment> \<open>the elements of an array\<close>
  "elems h v =
     (case v of
        Ref a \<Rightarrow> (case cell_at h a of Some (Arr xs) \<Rightarrow> xs | _ \<Rightarrow> [])
      | _ \<Rightarrow> [])"

definition digit :: "nat \<Rightarrow> char" where
  "digit d = ''0123456789'' ! d"

function show_nat :: "nat \<Rightarrow> string" where
  "show_nat n = (if n < 10 then [digit n] else show_nat (n div 10) @ [digit (n mod 10)])"
  by pat_completeness auto
termination
  by (relation "measure id") auto

declare show_nat.simps [simp del]

definition index_keys :: "'a list \<Rightarrow> string list" where
  "index_keys xs = map show_nat [0..<length xs]"

text \<open>
  The own enumerable properties of a value, which is what a spread \<open>{...v}\<close> copies: the
  properties of an object, the indexed elements of an array or a string, nothing for any
  other value (spreading \<open>null\<close> or \<open>undefined\<close> does not throw).
\<close>

definition own_props :: "cell list \<Rightarrow> val \<Rightarrow> (string, val) fmap" where
  "own_props h v =
     (case v of
        Ref a \<Rightarrow>
          (case cell_at h a of
             Some (Obj fs) \<Rightarrow> fs
           | Some (Arr xs) \<Rightarrow> fmap_of_list (zip (index_keys xs) xs)
           | None \<Rightarrow> fmempty)
      | Str s \<Rightarrow> fmap_of_list (zip (index_keys s) (map (\<lambda>c. Str [c]) s))
      | _ \<Rightarrow> fmempty)"

definition array_set :: "val \<Rightarrow> nat \<Rightarrow> val \<Rightarrow> world \<Rightarrow> world" where
  \<comment> \<open>\<open>arr[i] = x\<close> for \<open>i\<close> within the array: the array is changed in place\<close>
  "array_set arr i x w =
     (case arr of
        Ref a \<Rightarrow>
          (case cell_at (heap w) a of
             Some (Arr xs) \<Rightarrow> w\<lparr>heap := (heap w)[a := Arr (xs[i := x])]\<rparr>
           | _ \<Rightarrow> w)
      | _ \<Rightarrow> w)"

definition array_push :: "val \<Rightarrow> val \<Rightarrow> world \<Rightarrow> world" where
  \<comment> \<open>\<open>arr.push(x)\<close>: the array is changed in place\<close>
  "array_push arr x w =
     (case arr of
        Ref a \<Rightarrow>
          (case cell_at (heap w) a of
             Some (Arr xs) \<Rightarrow> w\<lparr>heap := (heap w)[a := Arr (xs @ [x])]\<rparr>
           | _ \<Rightarrow> w)
      | _ \<Rightarrow> w)"

text \<open>\<open>findIndex\<close> and \<open>some\<close> with a callback that may throw; \<open>None\<close> stands for \<open>-1\<close>.\<close>

fun findIndex :: "('a \<Rightarrow> js_error + bool) \<Rightarrow> 'a list \<Rightarrow> js_error + nat option" where
  "findIndex p [] = Inr None"
| "findIndex p (x # xs) =
     (case p x of
        Inl e \<Rightarrow> Inl e
      | Inr True \<Rightarrow> Inr (Some 0)
      | Inr False \<Rightarrow>
          (case findIndex p xs of
             Inl e \<Rightarrow> Inl e
           | Inr None \<Rightarrow> Inr None
           | Inr (Some i) \<Rightarrow> Inr (Some (Suc i))))"

fun some :: "('a \<Rightarrow> js_error + bool) \<Rightarrow> 'a list \<Rightarrow> js_error + bool" where
  "some p [] = Inr False"
| "some p (x # xs) =
     (case p x of
        Inl e \<Rightarrow> Inl e
      | Inr True \<Rightarrow> Inr True
      | Inr False \<Rightarrow> some p xs)"

text \<open>
  The result of \<open>JSON.parse\<close> is a tree; \<open>alloc_json\<close> puts it on the heap, every object
  and array in a cell of its own. Of two members with the same key the later one wins.
\<close>

datatype json = JNull | JBool bool | JNum int | JStr string
  | JArr "json list" | JObj "(string \<times> json) list"

fun alloc_json :: "json \<Rightarrow> cell list \<Rightarrow> val \<times> cell list"
and alloc_elems :: "json list \<Rightarrow> cell list \<Rightarrow> val list \<times> cell list"
and alloc_members :: "(string \<times> json) list \<Rightarrow> cell list \<Rightarrow> (string \<times> val) list \<times> cell list"
where
  "alloc_json JNull h = (Null, h)"
| "alloc_json (JBool b) h = (Bool b, h)"
| "alloc_json (JNum n) h = (Num n, h)"
| "alloc_json (JStr s) h = (Str s, h)"
| "alloc_json (JArr js) h =
     (let (vs, h1) = alloc_elems js h in (Ref (length h1), h1 @ [Arr vs]))"
| "alloc_json (JObj ms) h =
     (let (fs, h1) = alloc_members ms h
      in (Ref (length h1), h1 @ [Obj (fold (\<lambda>(k, v). fmupd k v) fs fmempty)]))"
| "alloc_elems [] h = ([], h)"
| "alloc_elems (j # js) h =
     (let (v, h1) = alloc_json j h; (vs, h2) = alloc_elems js h1 in (v # vs, h2))"
| "alloc_members [] h = ([], h)"
| "alloc_members ((k, j) # ms) h =
     (let (v, h1) = alloc_json j h; (fs, h2) = alloc_members ms h1 in ((k, v) # fs, h2))"

section \<open>The registry upsert (publish.ts)\<close>

definition entry_matches :: "cell list \<Rightarrow> val \<Rightarrow> val \<Rightarrow> js_error + bool" where
  \<comment> \<open>the callback of \<open>items.findIndex\<close>\<close>
  "entry_matches h entry it =
     (case get_prop h it ''prd_path'' of
        Inl e \<Rightarrow> Inl e
      | Inr p \<Rightarrow>
     (case get_prop h entry ''prd_path'' of
        Inl e \<Rightarrow> Inl e
      | Inr q \<Rightarrow>
          if p = q then Inr True
          else
     (case get_prop h it ''product_name'' of
        Inl e \<Rightarrow> Inl e
      | Inr n \<Rightarrow>
     (case get_prop h entry ''product_name'' of
        Inl e \<Rightarrow> Inl e
      | Inr m \<Rightarrow> Inr (n = m)))))"

text \<open>
  \<open>items\<close> is the registry's own array when it has one, and both branches write into
  it; only the object that is returned is new.
\<close>

definition upsertRegistry ::
  "(nat \<Rightarrow> string) \<Rightarrow> val \<Rightarrow> val \<Rightarrow> world \<Rightarrow> (js_error + val) \<times> world" where
  "upsertRegistry now registry entry w0 =
     (case get_prop (heap w0) registry ''items'' of
        Inl e \<Rightarrow> (Inl e, w0)
      | Inr ri \<Rightarrow>
          (let (items, w1) = (if isArray (heap w0) ri then (ri, w0) else alloc (Arr []) w0)
           in case findIndex (entry_matches (heap w1) entry) (elems (heap w1) items) of
                Inl e \<Rightarrow> (Inl e, w1)
              | Inr found \<Rightarrow>
                  (let w5 =
                     (case found of
                        Some idx \<Rightarrow>
                          (let old = own_props (heap w1) (elems (heap w1) items ! idx);
                               new = own_props (heap w1) entry;
                               (t, w2) = new_Date_toISOString now w1;
                               (item, w3) =
                                  alloc (Obj (fmupd ''updated_at'' (Str t) (old ++\<^sub>f new))) w2
                           in array_set items idx item w3)
                      | None \<Rightarrow>
                          (let new = own_props (heap w1) entry;
                               (t1, w2) = new_Date_toISOString now w1;
                               (t2, w3) = new_Date_toISOString now w2;
                               (item, w4) =
                                  alloc (Obj (fmupd ''updated_at'' (Str t2)
                                           (fmupd ''created_at'' (Str t1) new))) w3
                           in array_push items item w4));
                       (result, w6) =
                          alloc (Obj (fmupd ''items'' items (own_props (heap w5) registry))) w5
                   in (Inr result, w6))))"

text \<open>What an observer reads off the heap: a property, and the items of a registry.\<close>

definition read_prop :: "cell list \<Rightarrow> val \<Rightarrow> string \<Rightarrow> val" where
  "read_prop h v k = (case get_prop h v k of Inr x \<Rightarrow> x | Inl e \<Rightarrow> Undefined)"

definition items_of :: "cell list \<Rightarrow> val \<Rightarrow> val list" where
  "items_of h registry = elems h (read_prop h registry ''items'')"

section \<open>Strings and patterns\<close>

definition is_space :: "char \<Rightarrow> bool" where
  \<comment> \<open>the class \<open>\s\<close>, and what \<open>trim\<close> strips, among code units below 256\<close>
  "is_space c =
     (c \<in> set [CHR 0x09, CHR 0x0A, CHR 0x0B, CHR 0x0C, CHR 0x0D, CHR 0x20, CHR 0xA0])"

definition is_line_terminator :: "char \<Rightarrow> bool" where
  "is_line_terminator c = (c = CHR 0x0A \<or> c = CHR 0x0D)"

definition trim :: "string \<Rightarrow> string" where
  "trim s = rev (dropWhile is_space (rev (dropWhile is_space s)))"

definition starts_with :: "string \<Rightarrow> string \<Rightarrow> bool" where
  "starts_with pat s = (take (length pat) s = pat)"

fun includes_str :: "string \<Rightarrow> string \<Rightarrow> bool" where
  "includes_str pat [] = (pat = [])"
| "includes_str pat (c # cs) = (starts_with pat (c # cs) \<or> includes_str pat cs)"

fun join :: "string \<Rightarrow> string list \<Rightarrow> string" where
  "join sep [] = []"
| "join sep [x] = x"
| "join sep (x # y # xs) = x @ sep @ join sep (y # xs)"

definition strip_git_suffix :: "string \<Rightarrow> string" where
  \<comment> \<open>\<open>.replace(/\.git$/, '')\<close>\<close>
  "strip_git_suffix s =
     (if 4 \<le> length s \<and> drop (length s - 4) s = ''.git'' then take (length s - 4) s else s)"

definition or_default :: "string option \<Rightarrow> string \<Rightarrow> string" where
  \<comment> \<open>\<open>x || d\<close> for an optional string: \<open>undefined\<close>, \<open>null\<close> and the empty string are falsy\<close>
  "or_default x d = (case x of None \<Rightarrow> d | Some s \<Rightarrow> if s = [] then d else s)"

definition truthy :: "string option \<Rightarrow> bool" where
  "truthy x = (case x of None \<Rightarrow> False | Some s \<Rightarrow> s \<noteq> [])"

text \<open>
  A regular expression tries every start position from the left and returns the first
  match. \<open>first_match\<close> does so for an unanchored pattern, \<open>first_at_line_start\<close> for a
  pattern that begins with \<open>^\<close> under the \<open>m\<close> flag (the start of the input and every
  position behind a line terminator).
\<close>

fun first_match :: "(string \<Rightarrow> 'a option) \<Rightarrow> string \<Rightarrow> 'a option" where
  "first_match m [] = m []"
| "first_match m (c # cs) =
     (case m (c # cs) of Some r \<Rightarrow> Some r | None \<Rightarrow> first_match m cs)"

fun first_at_line_start :: "(string \<Rightarrow> 'a option) \<Rightarrow> bool \<Rightarrow> string \<Rightarrow> 'a option" where
  "first_at_line_start m at_start [] = (if at_start then m [] else None)"
| "first_at_line_start m at_start (c # cs) =
     (case (if at_start then m (c # cs) else None) of
        Some r \<Rightarrow> Some r
      | None \<Rightarrow> first_at_line_start m (is_line_terminator c) cs)"

section \<open>Validator (validate.ts)\<close>

definition heading_prd_at :: "string \<Rightarrow> string option" where
  \<comment> \<open>\<open>#\s+PRD:\<close> at the start of \<open>s\<close>; returns what follows the colon\<close>
  "heading_prd_at s =
     (case s of
        [] \<Rightarrow> None
      | c # r \<Rightarrow>
          (let r' = dropWhile is_space r
           in if c = CHR ''#'' \<and> takeWhile is_space r \<noteq> [] \<and> starts_with ''PRD:'' r'
              then Some (drop 4 r') else None))"

definition has_prd_heading :: "string \<Rightarrow> bool" where
  \<comment> \<open>\<open>content.match(/^#\s+PRD:/m)\<close> is not null\<close>
  "has_prd_heading content = (first_at_line_start heading_prd_at True content \<noteq> None)"

definition error_message :: "js_error \<Rightarrow> string option" where
  \<comment> \<open>\<open>error.message\<close> when \<open>error instanceof Error\<close>\<close>
  "error_message e = (case e of TypeError m \<Rightarrow> Some m | Error m \<Rightarrow> Some m | NonError \<Rightarrow> None)"

definition validatePrdFile :: "(string \<Rightarrow> js_error + string) \<Rightarrow> string \<Rightarrow> bool \<times> string list" where
  "validatePrdFile readFileSync filePath =
     (case readFileSync filePath of
        Inl e \<Rightarrow>
          (case error_message e of
             Some m \<Rightarrow> (False, [''Failed to read file: '' @ m])
           | None \<Rightarrow> (False, [''Unknown error reading file'']))
      | Inr content \<Rightarrow>
          if trim content = [] then (False, [''PRD file is empty''])
          else if \<not> has_prd_heading content
          then (False, [''PRD file must start with '' @ [CHR 0x22] @ ''# PRD: <product name>''
                          @ [CHR 0x22]])
          else (True, []))"

fun after_first :: "string \<Rightarrow> string \<Rightarrow> string option" where
  \<comment> \<open>what follows the first occurrence of \<open>pat\<close>\<close>
  "after_first pat [] = (if pat = [] then Some [] else None)"
| "after_first pat (c # cs) =
     (if starts_with pat (c # cs) then Some (drop (length pat) (c # cs))
      else after_first pat cs)"

definition comment_at :: "string \<Rightarrow> string option" where
  \<comment> \<open>\<open><!--[\s\S]*?-->\n\n?\<close> at the start of \<open>s\<close>; returns what follows the match\<close>
  "comment_at s =
     (if starts_with ''<!--'' s
      then (case after_first (''-->'' @ [CHR 0x0A]) (drop 4 s) of
              None \<Rightarrow> None
            | Some r \<Rightarrow> Some (if starts_with [CHR 0x0A] r then drop 1 r else r))
      else None)"

function strip_comments :: "string \<Rightarrow> string" where
  \<comment> \<open>\<open>.replace(/<!--[\s\S]*?-->\n\n?/g, '')\<close>\<close>
  "strip_comments [] = []"
| "strip_comments (c # cs) =
     (case comment_at (c # cs) of
        Some r \<Rightarrow> strip_comments r
      | None \<Rightarrow> c # strip_comments cs)"
  by pat_completeness auto
termination
proof (relation "measure length")
  fix c cs r
  assume a: "comment_at (c # cs) = Some r"
  have shorter: "after_first pat s = Some t \<Longrightarrow> length t \<le> length s" for pat s t
    by (induction s) (auto split: if_splits)
  have at_least: "starts_with p s \<Longrightarrow> length p \<le> length s" for p s
  proof -
    assume "starts_with p s"
    then have "length (take (length p) s) = length p"
      by (simp add: starts_with_def)
    then show ?thesis by simp
  qed
  from a have st: "starts_with ''<!--'' (c # cs)"
    by (auto simp: comment_at_def split: if_splits)
  from at_least[OF st] have len: "4 \<le> length (c # cs)"
    by simp
  from a st obtain r0 where r0: "after_first (''-->'' @ [CHR 0x0A]) (drop 4 (c # cs)) = Some r0"
    and r: "r = (if starts_with [CHR 0x0A] r0 then drop 1 r0 else r0)"
    by (auto simp: comment_at_def split: option.splits)
  from shorter[OF r0] have "length r0 \<le> length (c # cs) - 4" by simp
  moreover have "length r \<le> length r0" using r by auto
  ultimately have "length r < length (c # cs)" using len by linarith
  then show "(r, c # cs) \<in> measure length" by simp
qed simp_all

definition dot_plus :: "string \<Rightarrow> string option" where
  \<comment> \<open>\<open>(.+)$\<close> at the start of \<open>s\<close>, under the \<open>m\<close> flag\<close>
  "dot_plus s =
     (case takeWhile (\<lambda>c. \<not> is_line_terminator c) s of [] \<Rightarrow> None | c # cs \<Rightarrow> Some (c # cs))"

definition capture_after_spaces :: "nat \<Rightarrow> string \<Rightarrow> string option" where
  \<comment> \<open>white space (greedy, at least \<open>lo\<close>, given back one character at a time), then \<open>(.+)$\<close>\<close>
  "capture_after_spaces lo s =
     (let n = length (takeWhile is_space s)
      in case List.find (\<lambda>k. dot_plus (drop k s) \<noteq> None) (rev [lo..<Suc n]) of
           Some k \<Rightarrow> dot_plus (drop k s)
         | None \<Rightarrow> None)"

definition prd_title_at :: "string \<Rightarrow> string option" where
  \<comment> \<open>\<open>#\s+PRD:\s*(.+)$\<close> at the start of \<open>s\<close>\<close>
  "prd_title_at s =
     (case heading_prd_at s of None \<Rightarrow> None | Some r \<Rightarrow> capture_after_spaces 0 r)"

definition heading_at :: "string \<Rightarrow> string option" where
  \<comment> \<open>\<open>#\s+(.+)$\<close> at the start of \<open>s\<close>\<close>
  "heading_at s =
     (case s of
        [] \<Rightarrow> None
      | c # r \<Rightarrow> if c = CHR ''#'' then capture_after_spaces 1 r else None)"

definition extractProductName :: "string \<Rightarrow> string option" where
  "extractProductName content =
     (let withoutComment = strip_comments content
      in case first_at_line_start prd_title_at True withoutComment of
           Some m \<Rightarrow> Some (trim m)
         | None \<Rightarrow>
             (case first_at_line_start heading_at True withoutComment of
                Some m \<Rightarrow> Some (trim m)
              | None \<Rightarrow> None))"

section \<open>Repository references (git.ts, publish.ts)\<close>

definition not_slash :: "char \<Rightarrow> bool" where
  "not_slash c = (c \<noteq> CHR ''/'')"

definition getGitRemoteUrl :: "string option \<Rightarrow> string option" where
  \<comment> \<open>the argument is the output of \<open>git config --get remote.origin.url\<close>, \<open>None\<close> when
      the command fails\<close>
  "getGitRemoteUrl out =
     (case out of
        None \<Rightarrow> None
      | Some text \<Rightarrow> (let url = trim text in if url = [] then None else Some url))"

definition ssh_remote_at :: "string \<Rightarrow> (string \<times> string) option" where
  \<comment> \<open>\<open>git@github\.com:([^/]+)\/(.+?)(\.git)?$\<close> at the start of \<open>s\<close>\<close>
  "ssh_remote_at s =
     (if starts_with ''git@github.com:'' s
      then (let r = drop 15 s;
                org = takeWhile not_slash r;
                r1 = dropWhile not_slash r
            in if org \<noteq> [] \<and> r1 \<noteq> []
               then (let p = tl r1;
                         nm = (if 4 < length p \<and> drop (length p - 4) p = ''.git''
                               then take (length p - 4) p else p)
                     in if p \<noteq> [] \<and> list_all (\<lambda>c. \<not> is_line_terminator c) nm
                        then Some (org, nm) else None)
               else None)
      else None)"

definition normalizeRepoUrl :: "string option \<Rightarrow> string option" where
  "normalizeRepoUrl remote =
     (case remote of
        None \<Rightarrow> None
      | Some r \<Rightarrow>
          if r = [] then None
          else
            (case (if starts_with ''git@'' r then first_match ssh_remote_at r else None) of
               Some (org, nm) \<Rightarrow> Some (''https://github.com/'' @ org @ ''/'' @ nm)
             | None \<Rightarrow>
                 if starts_with ''https://'' r then Some (strip_git_suffix r) else Some r))"

definition github_url_at :: "string \<Rightarrow> (string \<times> string) option" where
  \<comment> \<open>\<open>github\.com\/([^\/]+)\/([^\/]+)\<close> at the start of \<open>s\<close>\<close>
  "github_url_at s =
     (if starts_with ''github.com/'' s
      then (let r = drop 11 s;
                org = takeWhile not_slash r;
                r1 = dropWhile not_slash r
            in if org \<noteq> [] \<and> r1 \<noteq> [] \<and> takeWhile not_slash (tl r1) \<noteq> []
               then Some (org, takeWhile not_slash (tl r1)) else None)
      else None)"

definition parseRepo :: "string \<Rightarrow> js_error + (string \<times> string)" where
  "parseRepo ref =
     (case (if includes_str ''github.com/'' ref then first_match github_url_at ref else None) of
        Some (org, nm) \<Rightarrow> Inr (org, strip_git_suffix nm)
      | None \<Rightarrow>
          if includes_str ''/'' ref
          then Inr (takeWhile not_slash ref,
                    strip_git_suffix (takeWhile not_slash (tl (dropWhile not_slash ref))))
          else Inl (Error (''Invalid repo format: '' @ ref @ ''. Use '' @ [CHR 0x22]
                      @ ''owner/repo'' @ [CHR 0x22] @ '' or full GitHub URL'')))"

definition generateBranchName ::
  "(nat \<Rightarrow> string) \<Rightarrow> string \<Rightarrow> string \<Rightarrow> world \<Rightarrow> string \<times> world" where
  "generateBranchName now dmn pname w =
     (let sanitized = sanitizeFilename pname;
          (iso, w1) = new_Date_toISOString now w;
          timestamp = map (\<lambda>c. if c = CHR '':'' \<or> c = CHR ''.'' then CHR ''-'' else c) iso
      in (''prd/'' @ dmn @ ''/'' @ sanitized @ ''-'' @ timestamp, w1))"

section \<open>The remote repository client (github.ts)\<close>

text \<open>
  The client's methods are requests to the hosting platform. What the platform answers
  belongs to the environment; the model records every call in the world's \<open>calls\<close>.
\<close>

record GitHubConfig =
  token :: string
  owner :: string
  repo :: string

text \<open>
  The environment: the clock, the file system, the local git configuration, the JSON
  library and the platform's answers.
\<close>

record env =
  clock :: "nat \<Rightarrow> string"
  readFileSync :: "string \<Rightarrow> js_error + string"
  git_config_output :: "string option"
  JSON_parse :: "string \<Rightarrow> json option"
  JSON_stringify :: "cell list \<Rightarrow> val \<Rightarrow> string"
  remote_getFile :: "GitHubConfig \<Rightarrow> string \<Rightarrow> string \<Rightarrow> js_error + string option"
  remote_createBranch :: "GitHubConfig \<Rightarrow> string \<Rightarrow> string \<Rightarrow> js_error option"
  remote_createOrUpdateFile ::
    "GitHubConfig \<Rightarrow> string \<Rightarrow> string \<Rightarrow> string \<Rightarrow> string \<Rightarrow> js_error option"
  remote_createPullRequest ::
    "GitHubConfig \<Rightarrow> string \<Rightarrow> string \<Rightarrow> string \<Rightarrow> string \<Rightarrow> js_error + (int \<times> string)"

definition log_call :: "call \<Rightarrow> world \<Rightarrow> world" where
  "log_call c w = w\<lparr>calls := calls w @ [c]\<rparr>"

definition getFile ::
  "env \<Rightarrow> GitHubConfig \<Rightarrow> string \<Rightarrow> string \<Rightarrow> world \<Rightarrow> (js_error + string option) \<times> world" where
  "getFile env cfg path ref w = (remote_getFile env cfg path ref, log_call (GetFile path ref) w)"

definition createBranch ::
  "env \<Rightarrow> GitHubConfig \<Rightarrow> string \<Rightarrow> string \<Rightarrow> world \<Rightarrow> js_error option \<times> world" where
  "createBranch env cfg branchName baseBranch w =
     (remote_createBranch env cfg branchName baseBranch,
      log_call (CreateBranch branchName baseBranch) w)"

definition createOrUpdateFile ::
  "env \<Rightarrow> GitHubConfig \<Rightarrow> string \<Rightarrow> string \<Rightarrow> string \<Rightarrow> string \<Rightarrow> world
     \<Rightarrow> js_error option \<times> world" where
  "createOrUpdateFile env cfg path content message branch w =
     (remote_createOrUpdateFile env cfg path content message branch,
      log_call (CreateOrUpdateFile path content message branch) w)"

definition createPullRequest ::
  "env \<Rightarrow> GitHubConfig \<Rightarrow> string \<Rightarrow> string \<Rightarrow> string \<Rightarrow> string \<Rightarrow> world
     \<Rightarrow> (js_error + (int \<times> string)) \<times> world" where
  "createPullRequest env cfg title body head base w =
     (remote_createPullRequest env cfg title body head base,
      log_call (CreatePullRequest title body head base) w)"

definition is_write_call :: "call \<Rightarrow> bool" where
  "is_write_call c = (case c of GetFile path ref \<Rightarrow> False | _ \<Rightarrow> True)"

section \<open>Publishing (publish.ts)\<close>

record PublishOptions =
  prd_file :: string
  domain :: string
  productName :: "string option"
  ownerTeam :: "string option"
  sourceRepo :: "string option"
  tags :: "string list option"
  githubToken :: string
  prdRepo :: "string option"
  baseBranch :: "string option"
  dryRun :: "bool option"

record PublishResult =
  success :: bool
  prUrl :: "string option"
  prNumber :: "int option"
  error :: "string option"
  dryRunMarker :: "bool option"

definition failure :: "string \<Rightarrow> PublishResult" where
  \<comment> \<open>\<open>{ success: false, error: msg }\<close>\<close>
  "failure msg =
     \<lparr>success = False, prUrl = None, prNumber = None, error = Some msg, dryRunMarker = None\<rparr>"

definition dry_run_success :: PublishResult where
  \<comment> \<open>\<open>{ success: true, dryRun: true }\<close>\<close>
  "dry_run_success =
     \<lparr>success = True, prUrl = None, prNumber = None, error = None, dryRunMarker = Some True\<rparr>"

text \<open>
  How a block of the function ends: by an exception, by a \<open>return\<close>, or by falling
  through to the next statement.
\<close>

datatype 'a outcome = Throw js_error | Return PublishResult | Continue 'a

record resolved =
  r_content :: string
  r_name :: string
  r_source :: "string option"
  r_client :: GitHubConfig
  r_base :: string
  r_path :: string

definition resolve_request :: "env \<Rightarrow> PublishOptions \<Rightarrow> resolved outcome" where
  \<comment> \<open>lines 92 to 141\<close>
  "resolve_request env opts =
     (let (valid, errors) = validatePrdFile (readFileSync env) (prd_file opts)
      in if \<not> valid then Return (failure (''PRD validation failed: '' @ join '', '' errors))
         else
     (case readFileSync env (prd_file opts) of
        Inl e \<Rightarrow> Throw e
      | Inr content \<Rightarrow>
     (case (if truthy (productName opts) then productName opts
            else (let extracted = extractProductName content
                  in if truthy extracted then extracted else None)) of
        None \<Rightarrow>
          Return (failure (''Could not extract product name from PRD. Provide --name or ''
            @ ''ensure PRD starts with '' @ [CHR 0x22] @ ''# PRD: <name>'' @ [CHR 0x22]))
      | Some pname \<Rightarrow>
     (let src = (if truthy (sourceRepo opts) then sourceRepo opts
                 else (let normalized =
                             normalizeRepoUrl (getGitRemoteUrl (git_config_output env))
                       in if truthy normalized then normalized else None))
      in case parseRepo (or_default (prdRepo opts) ''gnyanee97/vulcan-prds'') of
           Inl e \<Rightarrow> Throw e
         | Inr (org, nm) \<Rightarrow>
             Continue
               \<lparr>r_content = content, r_name = pname, r_source = src,
                r_client = \<lparr>token = githubToken opts, owner = org, repo = nm\<rparr>,
                r_base = or_default (baseBranch opts) ''main'',
                r_path = ''prds/'' @ domain opts @ ''/'' @ sanitizeFilename pname @ ''.md''\<rparr>))))"

definition new_registry :: "world \<Rightarrow> val \<times> world" where
  \<comment> \<open>\<open>{ version: '1', items: [] }\<close>\<close>
  "new_registry w =
     (let (items, w1) = alloc (Arr []) w
      in alloc (Obj (fmupd ''items'' items (fmupd ''version'' (Str ''1'') fmempty))) w1)"

definition parse_into :: "json \<Rightarrow> world \<Rightarrow> val \<times> world" where
  "parse_into j w = (let (v, h) = alloc_json j (heap w) in (v, w\<lparr>heap := h\<rparr>))"

definition read_registry :: "(string \<Rightarrow> json option) \<Rightarrow> string option \<Rightarrow> world \<Rightarrow> val \<times> world" where
  \<comment> \<open>lines 147 to 157; \<open>parse text = None\<close> when \<open>JSON.parse\<close> throws\<close>
  "read_registry parse registryContent w =
     (case registryContent of
        None \<Rightarrow> new_registry w
      | Some text \<Rightarrow>
          if text = [] then new_registry w
          else (case parse text of
                  Some j \<Rightarrow> parse_into j w
                | None \<Rightarrow> new_registry w))"

definition entry_object ::
  "string \<Rightarrow> string \<Rightarrow> string option \<Rightarrow> string option \<Rightarrow> string \<Rightarrow> val \<Rightarrow> (string, val) fmap" where
  \<comment> \<open>the object literal of lines 160 to 167\<close>
  "entry_object pname dmn team src path tagArray =
     fmupd ''tags'' tagArray
       (fmupd ''prd_path'' (Str path)
       (fmupd ''source_repo'' (Str (or_default src []))
       (fmupd ''owner_team'' (Str (or_default team []))
       (fmupd ''domain'' (Str dmn)
       (fmupd ''product_name'' (Str pname) fmempty)))))"

definition tag_list :: "string list option \<Rightarrow> string list" where
  \<comment> \<open>\<open>options.tags || []\<close>: every array is truthy\<close>
  "tag_list tgs = (case tgs of None \<Rightarrow> [] | Some ts \<Rightarrow> ts)"

definition prepare_entry ::
  "string \<Rightarrow> string \<Rightarrow> string option \<Rightarrow> string option \<Rightarrow> string \<Rightarrow> string list option
     \<Rightarrow> world \<Rightarrow> val \<times> world" where
  "prepare_entry pname dmn team src path tgs w =
     (let (tagArray, w1) = alloc (Arr (map Str (tag_list tgs))) w
      in alloc (Obj (entry_object pname dmn team src path tagArray)) w1)"

definition item_matches :: "cell list \<Rightarrow> string \<Rightarrow> string \<Rightarrow> val \<Rightarrow> js_error + bool" where
  \<comment> \<open>the callback of \<open>registry.items.some\<close>\<close>
  "item_matches h path pname item =
     (case get_prop h item ''prd_path'' of
        Inl e \<Rightarrow> Inl e
      | Inr p \<Rightarrow>
          if p = Str path then Inr True
          else (case get_prop h item ''product_name'' of
                  Inl e \<Rightarrow> Inl e
                | Inr n \<Rightarrow> Inr (n = Str pname)))"

definition registry_items_some :: "cell list \<Rightarrow> val \<Rightarrow> string \<Rightarrow> string \<Rightarrow> js_error + bool" where
  \<comment> \<open>lines 171 to 173; only an array has the method \<open>some\<close>\<close>
  "registry_items_some h registry path pname =
     (case get_prop h registry ''items'' of
        Inl e \<Rightarrow> Inl e
      | Inr ri \<Rightarrow>
          if ri = Undefined then
            Inl (TypeError (''Cannot read properties of undefined (reading '' @ quoted ''some''
                   @ '')''))
          else if ri = Null then
            Inl (TypeError (''Cannot read properties of null (reading '' @ quoted ''some''
                   @ '')''))
          else if isArray h ri then some (item_matches h path pname) (elems h ri)
          else Inl (TypeError ''registry.items.some is not a function''))"

definition classify ::
  "env \<Rightarrow> PublishOptions \<Rightarrow> resolved \<Rightarrow> world \<Rightarrow> (js_error + (val \<times> bool)) \<times> world" where
  \<comment> \<open>lines 144 to 173: the updated registry and \<open>isUpdate\<close>\<close>
  "classify env opts r w0 =
     (let (fetched, w1) = getFile env (r_client r) ''registry.json'' (r_base r) w0
      in case fetched of
           Inl e \<Rightarrow> (Inl e, w1)
         | Inr registryContent \<Rightarrow>
             (let (registry, w2) = read_registry (JSON_parse env) registryContent w1;
                  (entry, w3) = prepare_entry (r_name r) (domain opts) (ownerTeam opts) (r_source r)
                                  (r_path r) (tags opts) w2;
                  (upserted, w4) = upsertRegistry (clock env) registry entry w3
              in case upserted of
                   Inl e \<Rightarrow> (Inl e, w4)
                 | Inr updatedRegistry \<Rightarrow>
                     (case registry_items_some (heap w4) registry (r_path r) (r_name r) of
                        Inl e \<Rightarrow> (Inl e, w4)
                      | Inr isUpdate \<Rightarrow> (Inr (updatedRegistry, isUpdate), w4))))"

definition pr_title :: "bool \<Rightarrow> string \<Rightarrow> string" where
  "pr_title isUpdate pname = (if isUpdate then ''Update PRD: '' else ''Add PRD: '') @ pname"

definition pr_body :: "bool \<Rightarrow> PublishOptions \<Rightarrow> resolved \<Rightarrow> string" where
  \<comment> \<open>\<open>filter(Boolean)\<close> drops the empty lines\<close>
  "pr_body isUpdate opts r =
     join [CHR 0x0A] (filter (\<lambda>l. l \<noteq> [])
       [''## '' @ (if isUpdate then ''Update'' else ''Add'') @ '' PRD: '' @ r_name r,
        [],
        ''**Domain:** '' @ domain opts,
        (if truthy (ownerTeam opts) then ''**Owner Team:** '' @ or_default (ownerTeam opts) []
         else []),
        (if truthy (r_source r) then ''**Source Repo:** '' @ or_default (r_source r) [] else []),
        (case tags opts of
           None \<Rightarrow> []
         | Some ts \<Rightarrow> if 0 < length ts then ''**Tags:** '' @ join '', '' ts else []),
        [],
        ''This PR '' @ (if isUpdate then ''updates'' else ''adds'')
          @ '' a data product PRD to the central repository.'',
        [],
        ''### Changes'',
        ''- '' @ (if isUpdate then ''Updated'' else ''Added'') @ '' PRD file: `'' @ r_path r @ ''`'',
        ''- Updated `registry.json` with PRD metadata'',
        [],
        ''### Next Steps'',
        ''- Review PRD content'',
        ''- Merge PR to add to index'',
        ''- PRD will be automatically indexed after merge''])"

definition pr_files ::
  "env \<Rightarrow> bool \<Rightarrow> PublishOptions \<Rightarrow> resolved \<Rightarrow> cell list \<Rightarrow> val
     \<Rightarrow> (string \<times> string \<times> string) list" where
  \<comment> \<open>path, content and commit message of each file\<close>
  "pr_files env isUpdate opts r h updatedRegistry =
     [(r_path r, r_content r,
       (if isUpdate then ''Update'' else ''Add'') @ '' PRD: '' @ domain opts @ ''/'' @ r_name r),
      (''registry.json'', JSON_stringify env h updatedRegistry @ [CHR 0x0A],
       ''Update registry for PRD: '' @ domain opts @ ''/'' @ r_name r)]"

fun write_files ::
  "env \<Rightarrow> GitHubConfig \<Rightarrow> string \<Rightarrow> (string \<times> string \<times> string) list \<Rightarrow> world
     \<Rightarrow> js_error option \<times> world" where
  "write_files env cfg branch [] w = (None, w)"
| "write_files env cfg branch ((path, content, message) # fs) w =
     (let (failed, w1) = createOrUpdateFile env cfg path content message branch w
      in case failed of
           Some e \<Rightarrow> (Some e, w1)
         | None \<Rightarrow> write_files env cfg branch fs w1)"

definition open_pull_request ::
  "env \<Rightarrow> PublishOptions \<Rightarrow> resolved \<Rightarrow> val \<Rightarrow> bool \<Rightarrow> world
     \<Rightarrow> (js_error + PublishResult) \<times> world" where
  \<comment> \<open>lines 175 to 241\<close>
  "open_pull_request env opts r updatedRegistry isUpdate w0 =
     (let (branchName, w1) = generateBranchName (clock env) (domain opts) (r_name r) w0;
          prTitle = pr_title isUpdate (r_name r);
          prBody = pr_body isUpdate opts r;
          files = pr_files env isUpdate opts r (heap w1) updatedRegistry
      in if dryRun opts = Some True then (Inr dry_run_success, w1)
         else
           (let (failed, w2) = createBranch env (r_client r) branchName (r_base r) w1
            in case failed of
                 Some e \<Rightarrow> (Inl e, w2)
               | None \<Rightarrow>
                   (let (failed', w3) = write_files env (r_client r) branchName files w2
                    in case failed' of
                         Some e \<Rightarrow> (Inl e, w3)
                       | None \<Rightarrow>
                           (let (pr, w4) = createPullRequest env (r_client r) prTitle prBody
                                             branchName (r_base r) w3
                            in case pr of
                                 Inl e \<Rightarrow> (Inl e, w4)
                               | Inr (number, url) \<Rightarrow>
                                   (Inr \<lparr>success = True, prUrl = Some url,
                                         prNumber = Some number, error = None,
                                         dryRunMarker = None\<rparr>, w4)))))"

definition caught :: "js_error \<Rightarrow> PublishResult" where
  \<comment> \<open>the \<open>catch\<close> block of \<open>publishPrd\<close>\<close>
  "caught e = failure (case error_message e of Some m \<Rightarrow> m | None \<Rightarrow> ''Unknown error'')"

definition publishPrd :: "env \<Rightarrow> PublishOptions \<Rightarrow> world \<Rightarrow> PublishResult \<times> world" where
  "publishPrd env opts w0 =
     (case resolve_request env opts of
        Throw e \<Rightarrow> (caught e, w0)
      | Return res \<Rightarrow> (res, w0)
      | Continue r \<Rightarrow>
          (let (classified, w1) = classify env opts r w0
           in case classified of
                Inl e \<Rightarrow> (caught e, w1)
              | Inr (updatedRegistry, isUpdate) \<Rightarrow>
                  (let (opened, w2) = open_pull_request env opts r updatedRegistry isUpdate w1
                   in case opened of
                        Inl e \<Rightarrow> (caught e, w2)
                      | Inr res \<Rightarrow> (res, w2))))"

definition empty_world :: world where
  "empty_world = \<lparr>heap = [], ticks = 0, calls = []\<rparr>"

section \<open>Registries as the specification sees them\<close>


definition is_object :: "cell list \<Rightarrow> val \<Rightarrow> bool" where
  "is_object h v =
     (case v of
        Ref b \<Rightarrow> (case cell_at h b of Some (Obj ps) \<Rightarrow> True | _ \<Rightarrow> False)
      | _ \<Rightarrow> False)"

definition registry_shape :: "cell list \<Rightarrow> val \<Rightarrow> bool" where
  \<comment> \<open>an object whose \<open>items\<close> is an array of objects\<close>
  "registry_shape h registry =
     (is_object h registry \<and> isArray h (read_prop h registry ''items'')
      \<and> list_all (is_object h) (items_of h registry))"

definition paths_of :: "cell list \<Rightarrow> val \<Rightarrow> val list" where
  "paths_of h registry = map (\<lambda>it. read_prop h it ''prd_path'') (items_of h registry)"

definition unique_paths :: "cell list \<Rightarrow> val \<Rightarrow> bool" where
  \<comment> \<open>no two entries share a \<open>prd_path\<close>\<close>
  "unique_paths h registry = distinct (paths_of h registry)"

definition path_taken_elsewhere :: "cell list \<Rightarrow> val \<Rightarrow> string \<Rightarrow> string \<Rightarrow> bool" where
  \<comment> \<open>an entry other than the first one that matches by path or name has the path\<close>
  "path_taken_elsewhere h registry path pname =
     (case findIndex (item_matches h path pname) (items_of h registry) of
        Inr (Some i) \<Rightarrow>
          Str path \<in> set (take i (paths_of h registry) @ drop (Suc i) (paths_of h registry))
      | _ \<Rightarrow> False)"

definition pull_requests :: "call list \<Rightarrow> (string \<times> string) list" where
  \<comment> \<open>title and body of every pull request that was opened\<close>
  "pull_requests cs =
     concat (map (\<lambda>c. case c of CreatePullRequest title body head base \<Rightarrow> [(title, body)]
                              | _ \<Rightarrow> []) cs)"

definition publishable :: "env \<Rightarrow> PublishOptions \<Rightarrow> world \<Rightarrow> bool" where
  \<comment> \<open>the request resolves, \<open>registry.json\<close> can be fetched, and what is loaded from it is
      an object whose \<open>items\<close> is an array of objects\<close>
  "publishable env opts w =
     (case resolve_request env opts of
        Continue r \<Rightarrow>
          (case remote_getFile env (r_client r) ''registry.json'' (r_base r) of
             Inr content \<Rightarrow>
               (let (registry, w1) = read_registry (JSON_parse env) content
                                       (log_call (GetFile ''registry.json'' (r_base r)) w)
                in registry_shape (heap w1) registry)
           | Inl e \<Rightarrow> False)
      | _ \<Rightarrow> False)"

section \<open>Sample inputs\<close>

definition sample_clock :: "nat \<Rightarrow> string" where
  \<comment> \<open>a clock that moves on between its first and its second reading\<close>
  "sample_clock i =
     (if i = 0 then ''2024-01-15T10:30:45.999Z'' else ''2024-01-15T10:30:46.000Z'')"

definition fresh_world :: world where
  \<comment> \<open>the new registry \<open>Ref 1\<close> and the candidate \<open>Ref 3\<close> for product Foo\<close>
  "fresh_world =
     snd (prepare_entry ''Foo'' ''analytics'' None None ''prds/analytics/foo.md'' None
            (snd (new_registry empty_world)))"

definition after_insert :: "(js_error + val) \<times> world" where
  \<comment> \<open>the candidate upserted into the new registry\<close>
  "after_insert = upsertRegistry sample_clock (Ref 1) (Ref 3) fresh_world"

definition stored_json :: json where
  \<comment> \<open>a registry that holds one entry, for product Foo\<close>
  "stored_json =
     JObj [(''version'', JStr ''1''),
           (''items'', JArr [JObj [(''product_name'', JStr ''Foo''),
                                   (''prd_path'', JStr ''prds/analytics/foo.md''),
                                   (''tags'', JArr [JStr ''old'']),
                                   (''created_at'', JStr ''2023-05-01T08:00:00.000Z''),
                                   (''updated_at'', JStr ''2023-05-01T08:00:00.000Z'')]])]"

definition stored_world :: world where
  \<comment> \<open>the stored registry \<open>Ref 3\<close>, its items \<open>Ref 2\<close> and its entry \<open>Ref 1\<close>\<close>
  "stored_world = snd (parse_into stored_json empty_world)"

definition stored_candidate :: "val \<times> world" where
  \<comment> \<open>a candidate for the stored entry's path, with an owner team and a new tag\<close>
  "stored_candidate =
     prepare_entry ''Foo'' ''analytics'' (Some ''data'') None ''prds/analytics/foo.md''
       (Some [''new'']) stored_world"

definition after_update :: "(js_error + val) \<times> world" where
  "after_update =
     upsertRegistry sample_clock (Ref 3) (fst stored_candidate) (snd stored_candidate)"

definition rejecting_parser :: "string \<Rightarrow> json option" where
  \<comment> \<open>\<open>JSON.parse\<close> on texts it rejects\<close>
  "rejecting_parser text = None"

definition odd_json :: json where
  \<comment> \<open>valid JSON, an object, but \<open>items\<close> is not an array\<close>
  "odd_json = JObj [(''schema'', JNum 2), (''items'', JStr ''none'')]"

definition odd_parser :: "string \<Rightarrow> json option" where
  "odd_parser text = Some odd_json"



definition clash_json :: json where
  \<comment> \<open>two products whose names differ only in case, in two domains\<close>
  "clash_json =
     JObj [(''version'', JStr ''1''),
           (''items'', JArr [JObj [(''product_name'', JStr ''A''),
                                   (''prd_path'', JStr ''prds/x/a.md'')],
                             JObj [(''product_name'', JStr ''a''),
                                   (''prd_path'', JStr ''prds/d/a.md'')]])]"

definition clash_world :: world where
  \<comment> \<open>the registry \<open>Ref 3\<close> with the entries \<open>Ref 0\<close> and \<open>Ref 1\<close>\<close>
  "clash_world = snd (parse_into clash_json empty_world)"

definition clash_candidate :: "val \<times> world" where
  \<comment> \<open>product A published to domain d: its path is that of the second entry\<close>
  "clash_candidate =
     prepare_entry ''A'' ''d'' None None (''prds/'' @ ''d'' @ ''/'' @ sanitizeFilename ''A'' @ ''.md'')
       None clash_world"

definition after_clash :: "(js_error + val) \<times> world" where
  "after_clash = upsertRegistry sample_clock (Ref 3) (fst clash_candidate) (snd clash_candidate)"

definition moved_candidate :: "val \<times> world" where
  \<comment> \<open>product A published to domain y: the first entry has its name, no entry has its path\<close>
  "moved_candidate =
     prepare_entry ''A'' ''y'' None None (''prds/'' @ ''y'' @ ''/'' @ sanitizeFilename ''A'' @ ''.md'')
       None clash_world"

definition after_move :: "(js_error + val) \<times> world" where
  "after_move = upsertRegistry sample_clock (Ref 3) (fst moved_candidate) (snd moved_candidate)"

definition sample_document :: string where
  "sample_document = ''# PRD: Foo'' @ [CHR 0x0A] @ ''body''"

definition absent_env :: env where
  \<comment> \<open>no \<open>registry.json\<close> in the central repository; every write is accepted\<close>
  "absent_env =
     \<lparr>clock = sample_clock,
      readFileSync = (\<lambda>path. Inr sample_document),
      git_config_output = None,
      JSON_parse = rejecting_parser,
      JSON_stringify = (\<lambda>h v. ''{}''),
      remote_getFile = (\<lambda>cfg path ref. Inr None),
      remote_createBranch = (\<lambda>cfg branch from. None),
      remote_createOrUpdateFile = (\<lambda>cfg path content message branch. None),
      remote_createPullRequest =
        (\<lambda>cfg title body head base. Inr (1, ''https://github.com/gnyanee97/vulcan-prds/pull/1''))\<rparr>"

definition sample_options :: "bool \<Rightarrow> string option \<Rightarrow> PublishOptions" where
  \<comment> \<open>the dry-run switch and the \<open>--repo\<close> option are the arguments\<close>
  "sample_options dry target =
     \<lparr>prd_file = ''docs/prd.md'', domain = ''analytics'', productName = None,
      ownerTeam = None, sourceRepo = None, tags = None, githubToken = ''token'',
      prdRepo = target, baseBranch = None, dryRun = Some dry\<rparr>"

definition odd_env :: env where
  \<comment> \<open>as \<open>absent_env\<close>, but \<open>registry.json\<close> exists and parses to \<open>odd_json\<close>\<close>
  "odd_env =
     absent_env\<lparr>JSON_parse := odd_parser,
                remote_getFile := (\<lambda>cfg path ref. Inr (Some ''{...}''))\<rparr>"

section \<open>Properties of the naming\<close>

lemma length_sanitizeFilename: "length (sanitizeFilename name) \<le> 100"
  by (simp add: sanitizeFilename_def clean_name_def substring0_def Let_def)

lemma sanitizeFilename_fallback:
  "clean_name name = [] \<Longrightarrow> sanitizeFilename name = ''data-product-prd''"
  by (simp add: sanitizeFilename_def)

lemma clean_name_long_name: "clean_name long_name = replicate 99 CHR ''a'' @ ''-''"
  unfolding long_name_def by code_simp

subsection \<open>What every slug satisfies\<close>

lemma slug_chars_subset: "set t \<subseteq> set s \<Longrightarrow> slug_chars s \<Longrightarrow> slug_chars t"
  by (auto simp: slug_chars_def list_all_iff)

lemma slug_chars_replace: "slug_chars (replace_non_alnum_runs s)"
  by (induction s rule: replace_non_alnum_runs.induct) (simp_all add: slug_chars_def is_hyphen_def)

lemma set_strip_hyphens: "set (strip_hyphens s) \<subseteq> set s"
  by (auto simp: strip_hyphens_def dest!: set_dropWhileD)

lemma slug_chars_Cons: "slug_chars (c # t) = ((is_lower_alnum c \<or> is_hyphen c) \<and> slug_chars t)"
  by (simp add: slug_chars_def)

lemma slug_chars_collapse: "slug_chars s \<Longrightarrow> slug_chars (collapse_hyphens s)"
proof (induction s rule: collapse_hyphens.induct)
  case 1
  then show ?case by simp
next
  case (2 c cs)
  from "2.prems" have c: "is_lower_alnum c \<or> is_hyphen c" and cs: "slug_chars cs"
    by (simp_all add: slug_chars_Cons)
  show ?case
  proof (cases "is_hyphen c")
    case True
    have "set (dropWhile is_hyphen cs) \<subseteq> set cs"
      by (auto dest: set_dropWhileD)
    then have "slug_chars (dropWhile is_hyphen cs)"
      using cs by (rule slug_chars_subset)
    from "2.IH"(1)[OF True this] have "slug_chars (collapse_hyphens (dropWhile is_hyphen cs))" .
    moreover have "is_hyphen CHR ''-''" by (simp add: is_hyphen_def)
    ultimately show ?thesis using True by (simp add: slug_chars_Cons)
  next
    case False
    from "2.IH"(2)[OF False cs] c False show ?thesis by (simp add: slug_chars_Cons)
  qed
qed

lemma no_leading_hyphen_dropWhile: "no_leading_hyphen (dropWhile is_hyphen s)"
  by (induction s) (simp_all add: no_leading_hyphen_def)

lemma no_leading_hyphen_strip: "no_leading_hyphen (strip_hyphens s)"
proof (cases "dropWhile is_hyphen s")
  case Nil
  show ?thesis unfolding strip_hyphens_def Nil by (simp add: no_leading_hyphen_def)
next
  case (Cons c t)
  have c: "\<not> is_hyphen c"
    using no_leading_hyphen_dropWhile[of s] Cons by (simp add: no_leading_hyphen_def)
  have "dropWhile is_hyphen (rev t @ [c]) = dropWhile is_hyphen (rev t) @ [c]
      \<or> dropWhile is_hyphen (rev t @ [c]) = [c]"
    using c by (simp add: dropWhile_append)
  then obtain u where "dropWhile is_hyphen (rev t @ [c]) = u @ [c]" by auto
  then show ?thesis
    unfolding strip_hyphens_def Cons using c by (simp add: no_leading_hyphen_def)
qed

lemma no_leading_hyphen_collapse:
  "no_leading_hyphen s \<Longrightarrow> no_leading_hyphen (collapse_hyphens s)"
  by (cases s) (simp_all add: no_leading_hyphen_def)

lemma no_leading_hyphen_take: "no_leading_hyphen s \<Longrightarrow> no_leading_hyphen (take n s)"
  by (cases s; cases n) (simp_all add: no_leading_hyphen_def)

lemma no_double_hyphen_Cons:
  "no_double_hyphen t \<Longrightarrow> \<not> is_hyphen c \<or> no_leading_hyphen t \<Longrightarrow> no_double_hyphen (c # t)"
  by (cases t) (auto simp: no_leading_hyphen_def)

lemma no_double_hyphen_collapse: "no_double_hyphen (collapse_hyphens s)"
proof (induction s rule: collapse_hyphens.induct)
  case 1
  then show ?case by simp
next
  case (2 c cs)
  show ?case
  proof (cases "is_hyphen c")
    case True
    have "no_leading_hyphen (collapse_hyphens (dropWhile is_hyphen cs))"
      by (intro no_leading_hyphen_collapse no_leading_hyphen_dropWhile)
    with 2(1)[OF True] True show ?thesis
      by (simp add: no_double_hyphen_Cons)
  next
    case False
    with 2(2)[OF False] show ?thesis
      by (simp add: no_double_hyphen_Cons)
  qed
qed

lemma no_double_hyphen_take: "no_double_hyphen s \<Longrightarrow> no_double_hyphen (take n s)"
proof (induction s arbitrary: n rule: no_double_hyphen.induct)
  case (1 c d cs)
  show ?case
  proof (cases n)
    case 0
    then show ?thesis by simp
  next
    case (Suc m)
    from 1 have "no_double_hyphen (take m (d # cs))" by simp
    moreover from 1(2) have "\<not> (is_hyphen c \<and> is_hyphen d)" by simp
    ultimately show ?thesis
      by (cases m) (simp_all add: Suc)
  qed
qed (auto simp: take_Cons split: nat.splits)

lemma slug_chars_take: "slug_chars s \<Longrightarrow> slug_chars (take n s)"
  by (rule slug_chars_subset[OF set_take_subset])

lemma slug_chars_strip: "slug_chars s \<Longrightarrow> slug_chars (strip_hyphens s)"
  by (rule slug_chars_subset[OF set_strip_hyphens])

lemma clean_name_shape:
  "length (clean_name name) \<le> 100 \<and> slug_chars (clean_name name)
   \<and> no_leading_hyphen (clean_name name) \<and> no_double_hyphen (clean_name name)"
proof -
  have "slug_chars (clean_name name)"
    unfolding clean_name_def substring0_def
    by (rule slug_chars_take, rule slug_chars_collapse, rule slug_chars_strip,
        rule slug_chars_replace)
  moreover have "no_leading_hyphen (clean_name name)"
    unfolding clean_name_def substring0_def
    by (rule no_leading_hyphen_take, rule no_leading_hyphen_collapse,
        rule no_leading_hyphen_strip)
  moreover have "no_double_hyphen (clean_name name)"
    unfolding clean_name_def substring0_def
    by (rule no_double_hyphen_take, rule no_double_hyphen_collapse)
  moreover have "length (clean_name name) \<le> 100"
    by (simp add: clean_name_def substring0_def)
  ultimately show ?thesis by blast
qed

lemma fallback_shape:
  "slug_chars ''data-product-prd'' \<and> no_leading_hyphen ''data-product-prd''
   \<and> no_trailing_hyphen ''data-product-prd'' \<and> no_double_hyphen ''data-product-prd''"
  by code_simp

lemma sanitizeFilename_shape:
  "sanitizeFilename name \<noteq> [] \<and> length (sanitizeFilename name) \<le> 100
   \<and> slug_chars (sanitizeFilename name) \<and> no_leading_hyphen (sanitizeFilename name)
   \<and> no_double_hyphen (sanitizeFilename name)"
proof (cases "clean_name name = []")
  case True
  then have eq: "sanitizeFilename name = ''data-product-prd''"
    by (simp add: sanitizeFilename_def)
  have "''data-product-prd'' \<noteq> []" "length ''data-product-prd'' \<le> 100"
    by simp_all
  with fallback_shape show ?thesis unfolding eq by blast
next
  case False
  then have eq: "sanitizeFilename name = clean_name name"
    by (simp add: sanitizeFilename_def)
  from clean_name_shape[of name] False show ?thesis unfolding eq by blast
qed

subsection \<open>Where the truncation does not cut\<close>

lemma hyphen_not_alnum: "is_hyphen c \<Longrightarrow> \<not> is_lower_alnum c"
  by (simp add: is_hyphen_def is_lower_alnum_def)

lemma lower_char_fixed:
  "list_all (\<lambda>c. lower_char c = c) ''abcdefghijklmnopqrstuvwxyz0123456789-''"
  by code_simp

lemma lower_char_slug:
  assumes "is_lower_alnum c \<or> is_hyphen c"
  shows "lower_char c = c"
proof -
  from assms have "c \<in> set ''abcdefghijklmnopqrstuvwxyz0123456789-''"
    unfolding is_lower_alnum_def is_hyphen_def by auto
  with lower_char_fixed show ?thesis
    unfolding list_all_iff by blast
qed

lemma toLowerCase_slug: "slug_chars t \<Longrightarrow> toLowerCase t = t"
  by (induction t) (simp_all add: toLowerCase_def slug_chars_Cons lower_char_slug)

lemma replace_slug:
  "slug_chars t \<Longrightarrow> no_double_hyphen t \<Longrightarrow> replace_non_alnum_runs t = t"
proof (induction t rule: replace_non_alnum_runs.induct)
  case 1
  then show ?case by simp
next
  case (2 c cs)
  from "2.prems" have c: "is_lower_alnum c \<or> is_hyphen c" and cs: "slug_chars cs"
    and nd: "no_double_hyphen cs"
    by (simp_all add: slug_chars_Cons) (cases cs, simp_all)
  show ?case
  proof (cases "is_lower_alnum c")
    case True
    with "2.IH"(1)[OF True cs nd] show ?thesis by simp
  next
    case False
    with c have h: "is_hyphen c" by simp
    have keep: "dropWhile (\<lambda>d. \<not> is_lower_alnum d) cs = cs"
    proof (cases cs)
      case Nil
      then show ?thesis by simp
    next
      case (Cons d ds)
      with "2.prems"(2) h have "\<not> is_hyphen d" by simp
      moreover from cs Cons have "is_lower_alnum d \<or> is_hyphen d" by (simp add: slug_chars_Cons)
      ultimately show ?thesis by (simp add: Cons)
    qed
    from "2.IH"(2)[OF False] cs nd have "replace_non_alnum_runs cs = cs"
      by (simp add: keep)
    with False h show ?thesis by (simp add: keep is_hyphen_def)
  qed
qed

lemma strip_slug:
  "no_leading_hyphen t \<Longrightarrow> no_trailing_hyphen t \<Longrightarrow> strip_hyphens t = t"
proof -
  assume l: "no_leading_hyphen t" and r: "no_trailing_hyphen t"
  from l have a: "dropWhile is_hyphen t = t"
    by (cases t) (simp_all add: no_leading_hyphen_def)
  from r have b: "dropWhile is_hyphen (rev t) = rev t"
    by (cases "rev t") (simp_all add: no_trailing_hyphen_def no_leading_hyphen_def)
  show ?thesis by (simp add: strip_hyphens_def a b)
qed

lemma collapse_slug: "no_double_hyphen t \<Longrightarrow> collapse_hyphens t = t"
proof (induction t rule: collapse_hyphens.induct)
  case 1
  then show ?case by simp
next
  case (2 c cs)
  from "2.prems" have nd: "no_double_hyphen cs" by (cases cs) simp_all
  show ?case
  proof (cases "is_hyphen c")
    case True
    have keep: "dropWhile is_hyphen cs = cs"
    proof (cases cs)
      case Nil
      then show ?thesis by simp
    next
      case (Cons d ds)
      with "2.prems" True show ?thesis by simp
    qed
    from "2.IH"(1)[OF True] nd have "collapse_hyphens cs = cs" by (simp add: keep)
    with True show ?thesis by (simp add: keep is_hyphen_def)
  next
    case False
    with "2.IH"(2)[OF False nd] show ?thesis by simp
  qed
qed

lemma sanitizeFilename_fixpoint:
  assumes "t \<noteq> []" and "well_formed_slug t"
  shows "sanitizeFilename t = t"
proof -
  from assms(2) have "length t \<le> 100" "slug_chars t" "no_leading_hyphen t"
    "no_trailing_hyphen t" "no_double_hyphen t"
    by (simp_all add: well_formed_slug_def)
  then have "clean_name t = t"
    by (simp add: clean_name_def substring0_def toLowerCase_slug replace_slug strip_slug
        collapse_slug)
  with assms(1) show ?thesis by (simp add: sanitizeFilename_def)
qed

lemma sanitizeFilename_idempotent_if:
  assumes "no_trailing_hyphen (sanitizeFilename s)"
  shows "sanitizeFilename (sanitizeFilename s) = sanitizeFilename s"
proof (rule sanitizeFilename_fixpoint)
  show "sanitizeFilename s \<noteq> []" using sanitizeFilename_shape[of s] by blast
  show "well_formed_slug (sanitizeFilename s)"
    using sanitizeFilename_shape[of s] assms by (simp add: well_formed_slug_def)
qed

lemma collapse_Nil: "collapse_hyphens s = [] \<longleftrightarrow> s = []"
  by (cases s) simp_all

lemma last_collapse: "s \<noteq> [] \<Longrightarrow> last (collapse_hyphens s) = last s"
proof (induction s rule: collapse_hyphens.induct)
  case 1
  then show ?case by simp
next
  case (2 c cs)
  show ?case
  proof (cases "is_hyphen c")
    case True
    then have c: "c = CHR ''-''" by (simp add: is_hyphen_def)
    show ?thesis
    proof (cases "dropWhile is_hyphen cs = []")
      case empty: True
      have col: "collapse_hyphens (c # cs) = [CHR ''-'']"
        by (simp only: collapse_hyphens.simps True if_True empty)
      from empty have all: "\<forall>x\<in>set cs. x = CHR ''-''"
        by (simp add: dropWhile_eq_Nil_conv is_hyphen_def)
      have "last (c # cs) = CHR ''-''"
      proof (cases "cs = []")
        case True
        with c show ?thesis by simp
      next
        case False
        then have "last cs \<in> set cs" by simp
        with all False show ?thesis by simp
      qed
      then show ?thesis unfolding col by simp
    next
      case False
      then have ne: "cs \<noteq> []" by auto
      have col: "collapse_hyphens (c # cs) = CHR ''-'' # collapse_hyphens (dropWhile is_hyphen cs)"
        by (simp only: collapse_hyphens.simps True if_True)
      have "cs = takeWhile is_hyphen cs @ dropWhile is_hyphen cs" by simp
      then have "last cs = last (takeWhile is_hyphen cs @ dropWhile is_hyphen cs)" by simp
      also have "\<dots> = last (dropWhile is_hyphen cs)"
        using False by (rule last_appendR)
      finally have l: "last (dropWhile is_hyphen cs) = last cs" by simp
      from "2.IH"(1)[OF True False] l
      have "last (collapse_hyphens (dropWhile is_hyphen cs)) = last cs" by simp
      moreover have "collapse_hyphens (dropWhile is_hyphen cs) \<noteq> []"
        using False collapse_Nil[of "dropWhile is_hyphen cs"] by blast
      ultimately show ?thesis unfolding col using ne by simp
    qed
  next
    case False
    have col: "collapse_hyphens (c # cs) = c # collapse_hyphens cs"
      by (simp only: collapse_hyphens.simps False if_False)
    show ?thesis
    proof (cases "cs = []")
      case True
      then show ?thesis unfolding col by simp
    next
      case ne: False
      from "2.IH"(2)[OF False ne] ne show ?thesis
        unfolding col by (simp add: collapse_Nil)
    qed
  qed
qed

lemma no_trailing_hyphen_iff: "no_trailing_hyphen s \<longleftrightarrow> s = [] \<or> \<not> is_hyphen (last s)"
  by (cases s rule: rev_cases) (simp_all add: no_trailing_hyphen_def no_leading_hyphen_def)

lemma no_trailing_hyphen_strip: "no_trailing_hyphen (strip_hyphens s)"
  by (simp add: no_trailing_hyphen_def strip_hyphens_def no_leading_hyphen_dropWhile)

lemma no_trailing_hyphen_collapse:
  "no_trailing_hyphen s \<Longrightarrow> no_trailing_hyphen (collapse_hyphens s)"
  by (cases "s = []") (simp_all add: no_trailing_hyphen_iff collapse_Nil last_collapse)

lemma sanitizeFilename_untruncated:
  assumes "length (collapse_hyphens (strip_hyphens (replace_non_alnum_runs (toLowerCase s))))
             \<le> 100"
  shows "well_formed_slug (sanitizeFilename s)"
    and "sanitizeFilename (sanitizeFilename s) = sanitizeFilename s"
proof -
  let ?t = "collapse_hyphens (strip_hyphens (replace_non_alnum_runs (toLowerCase s)))"
  from assms have c: "clean_name s = ?t"
    by (simp add: clean_name_def substring0_def)
  have "no_trailing_hyphen ?t"
    by (rule no_trailing_hyphen_collapse, rule no_trailing_hyphen_strip)
  with c have "no_trailing_hyphen (clean_name s)" by simp
  moreover have "no_trailing_hyphen ''data-product-prd''"
    using fallback_shape by blast
  ultimately have nt: "no_trailing_hyphen (sanitizeFilename s)"
    by (cases "clean_name s = []") (simp_all add: sanitizeFilename_def)
  with sanitizeFilename_shape[of s] show "well_formed_slug (sanitizeFilename s)"
    by (simp add: well_formed_slug_def)
  from nt show "sanitizeFilename (sanitizeFilename s) = sanitizeFilename s"
    by (rule sanitizeFilename_idempotent_if)
qed

text \<open>
  C7. A slug is at most 100 characters of \<open>[a-z0-9-]\<close> without leading, trailing or
  doubled hyphens, and the fallback when nothing is left. All of this holds
  (\<open>sanitizeFilename_shape\<close>, \<open>sanitizeFilename_fallback\<close>) except for the trailing
  hyphen: the truncation to 100 characters runs after the hyphens were stripped, and on
  the 101-character name \<open>long_name\<close> it cuts right behind a hyphen.
\<close>

theorem sanitizeFilename_trailing_hyphen:
  "filename_safe long_name
   \<and> sanitizeFilename long_name = replicate 99 CHR ''a'' @ ''-''
   \<and> \<not> no_trailing_hyphen (sanitizeFilename long_name)
   \<and> \<not> well_formed_slug (sanitizeFilename long_name)"
proof -
  have safe: "filename_safe long_name"
    unfolding long_name_def by code_simp
  have val: "sanitizeFilename long_name = replicate 99 CHR ''a'' @ ''-''"
    by (simp add: sanitizeFilename_def clean_name_long_name)
  have "\<not> no_trailing_hyphen (replicate 99 CHR ''a'' @ ''-'')"
    by (simp add: no_trailing_hyphen_def no_leading_hyphen_def is_hyphen_def)
  with safe val show ?thesis
    by (simp add: well_formed_slug_def)
qed

text \<open>
  C8. On filename-safe input the sanitizer is meant to be idempotent, and it is as long
  as nothing is truncated (\<open>sanitizeFilename_untruncated\<close>). On \<open>long_name\<close> a second
  pass strips the hyphen that the truncation of the first pass left at the end, so the
  two results differ.
\<close>

theorem sanitizeFilename_not_idempotent:
  "filename_safe long_name
   \<and> sanitizeFilename (sanitizeFilename long_name) = replicate 99 CHR ''a''
   \<and> sanitizeFilename (sanitizeFilename long_name) \<noteq> sanitizeFilename long_name"
proof -
  have safe: "filename_safe long_name"
    unfolding long_name_def by code_simp
  have one: "sanitizeFilename long_name = replicate 99 CHR ''a'' @ ''-''"
    by (simp add: sanitizeFilename_def clean_name_long_name)
  have "clean_name (replicate 99 CHR ''a'' @ ''-'') = replicate 99 CHR ''a''"
    by code_simp
  then have two: "sanitizeFilename (replicate 99 CHR ''a'' @ ''-'') = replicate 99 CHR ''a''"
    by (simp add: sanitizeFilename_def)
  from safe one two show ?thesis by simp
qed

section \<open>Properties of the upsert\<close>

subsection \<open>What the upsert does to the heap\<close>

lemma cell_at_SomeD: "cell_at h a = Some c \<Longrightarrow> a < length h \<and> h ! a = c"
  by (auto simp: cell_at_def split: if_splits)

lemma upsert_insert:
  assumes r: "cell_at (heap w) r = Some (Obj fs)"
    and i: "fmlookup fs ''items'' = Some (Ref a)"
    and a: "cell_at (heap w) a = Some (Arr xs)"
    and f: "findIndex (entry_matches (heap w) entry) xs = Inr None"
  shows "upsertRegistry now (Ref r) entry w =
     (Inr (Ref (Suc (length (heap w)))),
      w\<lparr>heap := (heap w)[a := Arr (xs @ [Ref (length (heap w))])]
                 @ [Obj (fmupd ''updated_at'' (Str (now (Suc (ticks w))))
                      (fmupd ''created_at'' (Str (now (ticks w))) (own_props (heap w) entry))),
                    Obj (fmupd ''items'' (Ref a) fs)],
         ticks := Suc (Suc (ticks w))\<rparr>)"
proof -
  from r have r': "r < length (heap w)" "heap w ! r = Obj fs"
    by (auto dest: cell_at_SomeD)
  from a have a': "a < length (heap w)" "heap w ! a = Arr xs"
    by (auto dest: cell_at_SomeD)
  from r' a' have ne: "r \<noteq> a" by auto
  have g: "get_prop (heap w) (Ref r) ''items'' = Inr (Ref a)"
    using r i by (simp add: get_prop_def)
  have ia: "isArray (heap w) (Ref a)" using a by (simp add: isArray_def)
  have el: "elems (heap w) (Ref a) = xs" using a by (simp add: elems_def)
  show ?thesis
    unfolding upsertRegistry_def
    using r' a' ne f
    by (simp add: g ia el alloc_def new_Date_toISOString_def array_push_def own_props_def
        cell_at_def nth_append list_update_append Let_def)
qed

lemma upsert_update:
  assumes r: "cell_at (heap w) r = Some (Obj fs)"
    and i: "fmlookup fs ''items'' = Some (Ref a)"
    and a: "cell_at (heap w) a = Some (Arr xs)"
    and f: "findIndex (entry_matches (heap w) entry) xs = Inr (Some idx)"
  shows "upsertRegistry now (Ref r) entry w =
     (Inr (Ref (Suc (length (heap w)))),
      w\<lparr>heap := (heap w)[a := Arr (xs[idx := Ref (length (heap w))])]
                 @ [Obj (fmupd ''updated_at'' (Str (now (ticks w)))
                      (own_props (heap w) (xs ! idx) ++\<^sub>f own_props (heap w) entry)),
                    Obj (fmupd ''items'' (Ref a) fs)],
         ticks := Suc (ticks w)\<rparr>)"
proof -
  from r have r': "r < length (heap w)" "heap w ! r = Obj fs"
    by (auto dest: cell_at_SomeD)
  from a have a': "a < length (heap w)" "heap w ! a = Arr xs"
    by (auto dest: cell_at_SomeD)
  from r' a' have ne: "r \<noteq> a" by auto
  have g: "get_prop (heap w) (Ref r) ''items'' = Inr (Ref a)"
    using r i by (simp add: get_prop_def)
  have ia: "isArray (heap w) (Ref a)" using a by (simp add: isArray_def)
  have el: "elems (heap w) (Ref a) = xs" using a by (simp add: elems_def)
  show ?thesis
    unfolding upsertRegistry_def
    using r' a' ne f
    by (simp add: g ia el alloc_def new_Date_toISOString_def array_set_def own_props_def
        cell_at_def nth_append list_update_append Let_def)
qed



lemma prepare_entry_eq:
  "prepare_entry pname dmn team src path tgs w =
     (Ref (Suc (length (heap w))),
      w\<lparr>heap := heap w @ [Arr (map Str (tag_list tgs)),
                           Obj (entry_object pname dmn team src path (Ref (length (heap w))))]\<rparr>)"
  by (simp add: prepare_entry_def alloc_def)

lemma new_registry_eq:
  "new_registry w =
     (Ref (Suc (length (heap w))),
      w\<lparr>heap := heap w @ [Arr [], Obj (fmupd ''items'' (Ref (length (heap w)))
                                      (fmupd ''version'' (Str ''1'') fmempty))]\<rparr>)"
  by (simp add: new_registry_def alloc_def)

lemma items_of_result:
  assumes "a < length h" "length h' = length h" "h' ! a = Arr ys"
  shows "items_of (h' @ [c, Obj (fmupd ''items'' (Ref a) fs)]) (Ref (Suc (length h))) = ys"
  using assms
  by (simp add: items_of_def read_prop_def get_prop_def elems_def cell_at_def nth_append)

lemma read_prop_new_item:
  assumes "length h' = length h"
  shows "read_prop (h' @ [Obj ps, c]) (Ref (length h)) k =
           (case fmlookup ps k of Some x \<Rightarrow> x | None \<Rightarrow> Undefined)"
  using assms
  by (simp add: read_prop_def get_prop_def cell_at_def nth_append)

lemma read_prop_object:
  "cell_at h e = Some (Obj ps) \<Longrightarrow>
   read_prop h (Ref e) k = (case fmlookup ps k of Some x \<Rightarrow> x | None \<Rightarrow> Undefined)"
  by (simp add: read_prop_def get_prop_def)

lemma fresh_world_eq:
  "fresh_world =
     \<lparr>heap = [Arr [],
              Obj (fmupd ''items'' (Ref 0) (fmupd ''version'' (Str ''1'') fmempty)),
              Arr [],
              Obj (entry_object ''Foo'' ''analytics'' None None ''prds/analytics/foo.md'' (Ref 2))],
      ticks = 0, calls = []\<rparr>"
  by (simp add: fresh_world_def new_registry_eq prepare_entry_eq empty_world_def tag_list_def
      eval_nat_numeral)

lemma after_insert_eq:
  "after_insert =
     (Inr (Ref 5),
      \<lparr>heap = [Arr [Ref 4],
               Obj (fmupd ''items'' (Ref 0) (fmupd ''version'' (Str ''1'') fmempty)),
               Arr [],
               Obj (entry_object ''Foo'' ''analytics'' None None ''prds/analytics/foo.md'' (Ref 2)),
               Obj (fmupd ''updated_at'' (Str ''2024-01-15T10:30:46.000Z'')
                     (fmupd ''created_at'' (Str ''2024-01-15T10:30:45.999Z'')
                       (entry_object ''Foo'' ''analytics'' None None ''prds/analytics/foo.md''
                          (Ref 2)))),
               Obj (fmupd ''items'' (Ref 0) (fmupd ''version'' (Str ''1'') fmempty))],
       ticks = 2, calls = []\<rparr>)"
proof -
  have r: "cell_at (heap fresh_world) 1
      = Some (Obj (fmupd ''items'' (Ref 0) (fmupd ''version'' (Str ''1'') fmempty)))"
    by (simp add: fresh_world_eq cell_at_def)
  have a: "cell_at (heap fresh_world) 0 = Some (Arr [])"
    by (simp add: fresh_world_eq cell_at_def)
  have f: "findIndex (entry_matches (heap fresh_world) (Ref 3)) [] = Inr None"
    by simp
  show ?thesis
    unfolding after_insert_def
    by (subst upsert_insert[OF r _ a f])
       (simp_all add: fresh_world_eq sample_clock_def own_props_def cell_at_def eval_nat_numeral)
qed

text \<open>
  C2. The upsert is specified to leave the registry it is given untouched. The object it
  returns is new, but \<open>items\<close> in it is the array of the old registry, and that array
  was written to: for the new registry \<open>Ref 1\<close> and the candidate \<open>Ref 3\<close>, the old
  registry has no item before the call and one item after it.
\<close>

theorem upsert_writes_old_registry:
  "items_of (heap fresh_world) (Ref 1) = []
   \<and> fst after_insert = Inr (Ref 5)
   \<and> items_of (heap (snd after_insert)) (Ref 1) = [Ref 4]
   \<and> read_prop (heap (snd after_insert)) (Ref 1) ''items''
       = read_prop (heap (snd after_insert)) (Ref 5) ''items''"
  by (simp add: after_insert_eq fresh_world_eq items_of_def read_prop_def get_prop_def
      elems_def cell_at_def)

text \<open>
  C5. Upserting into a registry with no items yields one item. Its \<open>created_at\<close> is the
  reading the clock gives first and its \<open>updated_at\<close> the reading it gives next, so the
  two are equal exactly when the clock has not moved on in between.
\<close>

theorem upsert_into_empty:
  assumes r: "cell_at (heap w) r = Some (Obj fs)"
    and i: "fmlookup fs ''items'' = Some (Ref a)"
    and a: "cell_at (heap w) a = Some (Arr [])"
    and u: "upsertRegistry now (Ref r) entry w = (res, w')"
  shows "\<exists>reg item. res = Inr reg \<and> items_of (heap w') reg = [item]
           \<and> read_prop (heap w') item ''created_at'' = Str (now (ticks w))
           \<and> read_prop (heap w') item ''updated_at'' = Str (now (Suc (ticks w)))
           \<and> (read_prop (heap w') item ''created_at'' = read_prop (heap w') item ''updated_at''
                \<longleftrightarrow> now (ticks w) = now (Suc (ticks w)))"
proof -
  have f: "findIndex (entry_matches (heap w) entry) [] = Inr None" by simp
  from a have a': "a < length (heap w)" by (auto dest: cell_at_SomeD)
  note eq = upsert_insert[OF r i a f, of now]
  from u eq have res: "res = Inr (Ref (Suc (length (heap w))))"
    and w': "heap w' = (heap w)[a := Arr [Ref (length (heap w))]]
                 @ [Obj (fmupd ''updated_at'' (Str (now (Suc (ticks w))))
                      (fmupd ''created_at'' (Str (now (ticks w))) (own_props (heap w) entry))),
                    Obj (fmupd ''items'' (Ref a) fs)]"
    by auto
  have it: "items_of (heap w') (Ref (Suc (length (heap w)))) = [Ref (length (heap w))]"
    unfolding w' using a' by (intro items_of_result) simp_all
  have c: "read_prop (heap w') (Ref (length (heap w))) ''created_at'' = Str (now (ticks w))"
    unfolding w' by (subst read_prop_new_item) simp_all
  have up: "read_prop (heap w') (Ref (length (heap w))) ''updated_at'' = Str (now (Suc (ticks w)))"
    unfolding w' by (subst read_prop_new_item) simp_all
  from res it c up show ?thesis by simp
qed

theorem upsert_into_empty_witness:
  "cell_at (heap fresh_world) 1
     = Some (Obj (fmupd ''items'' (Ref 0) (fmupd ''version'' (Str ''1'') fmempty)))
   \<and> cell_at (heap fresh_world) 0 = Some (Arr [])
   \<and> (\<exists>reg item. fst after_insert = Inr reg
         \<and> items_of (heap (snd after_insert)) reg = [item]
         \<and> read_prop (heap (snd after_insert)) item ''created_at''
             = Str (sample_clock (ticks fresh_world))
         \<and> read_prop (heap (snd after_insert)) item ''updated_at''
             = Str (sample_clock (Suc (ticks fresh_world))))"
proof -
  have r: "cell_at (heap fresh_world) 1
     = Some (Obj (fmupd ''items'' (Ref 0) (fmupd ''version'' (Str ''1'') fmempty)))"
    by (simp add: fresh_world_eq cell_at_def)
  have a: "cell_at (heap fresh_world) 0 = Some (Arr [])"
    by (simp add: fresh_world_eq cell_at_def)
  have i: "fmlookup (fmupd ''items'' (Ref 0) (fmupd ''version'' (Str ''1'') fmempty)) ''items''
      = Some (Ref 0)" by simp
  have u: "upsertRegistry sample_clock (Ref 1) (Ref 3) fresh_world
      = (fst after_insert, snd after_insert)"
    by (simp add: after_insert_def)
  from upsert_into_empty[OF r i a u] r a show ?thesis by blast
qed

theorem upsert_timestamps_differ:
  "cell_at (heap fresh_world) 0 = Some (Arr [])
   \<and> fst after_insert = Inr (Ref 5)
   \<and> items_of (heap (snd after_insert)) (Ref 5) = [Ref 4]
   \<and> read_prop (heap (snd after_insert)) (Ref 4) ''created_at'' = Str ''2024-01-15T10:30:45.999Z''
   \<and> read_prop (heap (snd after_insert)) (Ref 4) ''updated_at'' = Str ''2024-01-15T10:30:46.000Z''
   \<and> read_prop (heap (snd after_insert)) (Ref 4) ''created_at''
       \<noteq> read_prop (heap (snd after_insert)) (Ref 4) ''updated_at''"
  by (simp add: after_insert_eq fresh_world_eq items_of_def read_prop_def get_prop_def
      elems_def cell_at_def)

lemma stored_world_eq:
  "parse_into stored_json empty_world =
     (Ref 3,
      \<lparr>heap = [Arr [Str ''old''],
               Obj (fmupd ''updated_at'' (Str ''2023-05-01T08:00:00.000Z'')
                   (fmupd ''created_at'' (Str ''2023-05-01T08:00:00.000Z'')
                   (fmupd ''tags'' (Ref 0)
                   (fmupd ''prd_path'' (Str ''prds/analytics/foo.md'')
                   (fmupd ''product_name'' (Str ''Foo'') fmempty))))),
               Arr [Ref 1],
               Obj (fmupd ''items'' (Ref 2) (fmupd ''version'' (Str ''1'') fmempty))],
       ticks = 0, calls = []\<rparr>)"
  by (simp add: parse_into_def stored_json_def empty_world_def eval_nat_numeral)

text \<open>
  C4. When the one entry of the registry has the candidate's \<open>prd_path\<close>, the result has
  one item again: it keeps the \<open>created_at\<close> of the old entry, its \<open>updated_at\<close> is the
  reading of the clock, and all six fields of the candidate are in it.
\<close>

theorem upsert_existing_path:
  assumes r: "cell_at (heap w) r = Some (Obj fs)"
    and i: "fmlookup fs ''items'' = Some (Ref a)"
    and a: "cell_at (heap w) a = Some (Arr [Ref e])"
    and e: "cell_at (heap w) e = Some (Obj old)"
    and p: "fmlookup old ''prd_path'' = Some (Str path)"
    and c: "prepare_entry pname dmn team src path tgs w = (entry, w1)"
    and u: "upsertRegistry now (Ref r) entry w1 = (res, w2)"
  shows "\<exists>reg item. res = Inr reg \<and> items_of (heap w2) reg = [item]
           \<and> read_prop (heap w2) item ''created_at'' = read_prop (heap w) (Ref e) ''created_at''
           \<and> read_prop (heap w2) item ''updated_at'' = Str (now (ticks w))
           \<and> read_prop (heap w2) item ''product_name'' = Str pname
           \<and> read_prop (heap w2) item ''domain'' = Str dmn
           \<and> read_prop (heap w2) item ''owner_team'' = Str (or_default team [])
           \<and> read_prop (heap w2) item ''source_repo'' = Str (or_default src [])
           \<and> read_prop (heap w2) item ''prd_path'' = Str path
           \<and> elems (heap w2) (read_prop (heap w2) item ''tags'') = map Str (tag_list tgs)
           \<and> (\<forall>k. k |\<in>| fmdom (own_props (heap w1) entry) \<longrightarrow>
                  read_prop (heap w2) item k = read_prop (heap w1) entry k)"
proof -
  let ?n = "length (heap w)"
  let ?obj = "entry_object pname dmn team src path (Ref ?n)"
  from c have entry: "entry = Ref (Suc ?n)"
    and w1: "w1 = w\<lparr>heap := heap w @ [Arr (map Str (tag_list tgs)), Obj ?obj]\<rparr>"
    by (simp_all add: prepare_entry_eq)
  from r a e have lt: "r < ?n" "a < ?n" "e < ?n"
    by (auto dest: cell_at_SomeD)
  have r1: "cell_at (heap w1) r = Some (Obj fs)"
    and a1: "cell_at (heap w1) a = Some (Arr [Ref e])"
    and e1: "cell_at (heap w1) e = Some (Obj old)"
    using r a e lt by (simp_all add: w1 cell_at_def nth_append)
  have c1: "cell_at (heap w1) (Suc ?n) = Some (Obj ?obj)"
    by (simp add: w1 cell_at_def nth_append)
  have m: "entry_matches (heap w1) entry (Ref e) = Inr True"
    using e1 c1 p by (simp add: entry entry_matches_def get_prop_def entry_object_def)
  then have f: "findIndex (entry_matches (heap w1) entry) [Ref e] = Inr (Some 0)"
    by simp
  have oe: "own_props (heap w1) entry = ?obj"
    using c1 by (simp add: entry own_props_def)
  have oo: "own_props (heap w1) (Ref e) = old"
    using e1 by (simp add: own_props_def)
  let ?item = "fmupd ''updated_at'' (Str (now (ticks w))) (old ++\<^sub>f ?obj)"
  let ?h = "(heap w1)[a := Arr [Ref (length (heap w1))]]"
  have tk: "ticks w1 = ticks w" by (simp add: w1)
  have eq: "upsertRegistry now (Ref r) entry w1 =
      (Inr (Ref (Suc (length (heap w1)))),
       w1\<lparr>heap := ?h @ [Obj ?item, Obj (fmupd ''items'' (Ref a) fs)],
          ticks := Suc (ticks w1)\<rparr>)"
  proof -
    have lu: "[Ref e][0 := x] = [x]" for x :: val by simp
    show ?thesis
      using upsert_update[OF r1 i a1 f, of now] by (simp only: oe oo tk nth_Cons_0 lu)
  qed
  from u eq have res: "res = Inr (Ref (Suc (length (heap w1))))"
    and h2: "heap w2 = ?h @ [Obj ?item, Obj (fmupd ''items'' (Ref a) fs)]"
    by auto
  have len: "length ?h = length (heap w1)" by simp
  have it: "items_of (heap w2) (Ref (Suc (length (heap w1)))) = [Ref (length (heap w1))]"
    unfolding h2 using lt by (intro items_of_result) (simp_all add: w1)
  have rd: "read_prop (heap w2) (Ref (length (heap w1))) k =
      (case fmlookup ?item k of Some x \<Rightarrow> x | None \<Rightarrow> Undefined)" for k
    unfolding h2 by (rule read_prop_new_item[OF len])
  have created: "read_prop (heap w2) (Ref (length (heap w1))) ''created_at''
      = read_prop (heap w) (Ref e) ''created_at''"
    by (simp add: rd read_prop_object[OF e] entry_object_def)
  have tg: "read_prop (heap w2) (Ref (length (heap w1))) ''tags'' = Ref ?n"
    by (simp add: rd entry_object_def)
  have "elems (heap w2) (Ref ?n) = map Str (tag_list tgs)"
    unfolding h2 w1 using lt
    by (simp add: elems_def cell_at_def nth_append nth_list_update)
  with tg have tags: "elems (heap w2) (read_prop (heap w2) (Ref (length (heap w1))) ''tags'')
      = map Str (tag_list tgs)"
    by (simp only:)
  have all: "read_prop (heap w2) (Ref (length (heap w1))) k = read_prop (heap w1) entry k"
    if "k |\<in>| fmdom (own_props (heap w1) entry)" for k
  proof -
    from that have k: "k |\<in>| fmdom ?obj" by (simp add: oe)
    then have "k \<noteq> ''updated_at''" by (auto simp: entry_object_def)
    with k show ?thesis
      by (simp add: rd entry read_prop_object[OF c1])
  qed
  from res it created tags all show ?thesis
    by (simp add: rd entry_object_def)
qed

theorem upsert_existing_path_witness:
  "cell_at (heap stored_world) 3
     = Some (Obj (fmupd ''items'' (Ref 2) (fmupd ''version'' (Str ''1'') fmempty)))
   \<and> cell_at (heap stored_world) 2 = Some (Arr [Ref 1])
   \<and> read_prop (heap stored_world) (Ref 1) ''prd_path'' = Str ''prds/analytics/foo.md''
   \<and> read_prop (heap stored_world) (Ref 1) ''created_at'' = Str ''2023-05-01T08:00:00.000Z''
   \<and> (\<exists>reg item. fst after_update = Inr reg
         \<and> items_of (heap (snd after_update)) reg = [item]
         \<and> read_prop (heap (snd after_update)) item ''created_at''
             = Str ''2023-05-01T08:00:00.000Z''
         \<and> read_prop (heap (snd after_update)) item ''updated_at''
             = Str ''2024-01-15T10:30:45.999Z''
         \<and> read_prop (heap (snd after_update)) item ''owner_team'' = Str ''data''
         \<and> elems (heap (snd after_update)) (read_prop (heap (snd after_update)) item ''tags'')
             = [Str ''new''])"
proof -
  have sw: "heap stored_world =
      [Arr [Str ''old''],
       Obj (fmupd ''updated_at'' (Str ''2023-05-01T08:00:00.000Z'')
           (fmupd ''created_at'' (Str ''2023-05-01T08:00:00.000Z'')
           (fmupd ''tags'' (Ref 0)
           (fmupd ''prd_path'' (Str ''prds/analytics/foo.md'')
           (fmupd ''product_name'' (Str ''Foo'') fmempty))))),
       Arr [Ref 1],
       Obj (fmupd ''items'' (Ref 2) (fmupd ''version'' (Str ''1'') fmempty))]"
    and tk: "ticks stored_world = 0"
    by (simp_all add: stored_world_def stored_world_eq)
  have r: "cell_at (heap stored_world) 3
      = Some (Obj (fmupd ''items'' (Ref 2) (fmupd ''version'' (Str ''1'') fmempty)))"
    by (simp add: sw cell_at_def)
  have i: "fmlookup (fmupd ''items'' (Ref 2) (fmupd ''version'' (Str ''1'') fmempty)) ''items''
      = Some (Ref 2)" by simp
  have a: "cell_at (heap stored_world) 2 = Some (Arr [Ref 1])"
    by (simp add: sw cell_at_def)
  have e: "cell_at (heap stored_world) 1 =
      Some (Obj (fmupd ''updated_at'' (Str ''2023-05-01T08:00:00.000Z'')
           (fmupd ''created_at'' (Str ''2023-05-01T08:00:00.000Z'')
           (fmupd ''tags'' (Ref 0)
           (fmupd ''prd_path'' (Str ''prds/analytics/foo.md'')
           (fmupd ''product_name'' (Str ''Foo'') fmempty))))))"
    by (simp add: sw cell_at_def)
  have p: "fmlookup (fmupd ''updated_at'' (Str ''2023-05-01T08:00:00.000Z'')
           (fmupd ''created_at'' (Str ''2023-05-01T08:00:00.000Z'')
           (fmupd ''tags'' (Ref 0)
           (fmupd ''prd_path'' (Str ''prds/analytics/foo.md'')
           (fmupd ''product_name'' (Str ''Foo'') fmempty))))) ''prd_path''
      = Some (Str ''prds/analytics/foo.md'')" by simp
  have pe: "read_prop (heap stored_world) (Ref 1) ''prd_path'' = Str ''prds/analytics/foo.md''"
    and ce: "read_prop (heap stored_world) (Ref 1) ''created_at'' = Str ''2023-05-01T08:00:00.000Z''"
    by (simp_all add: sw read_prop_def get_prop_def cell_at_def)
  have c: "prepare_entry ''Foo'' ''analytics'' (Some ''data'') None ''prds/analytics/foo.md''
        (Some [''new'']) stored_world = (fst stored_candidate, snd stored_candidate)"
    by (simp add: stored_candidate_def)
  have u: "upsertRegistry sample_clock (Ref 3) (fst stored_candidate) (snd stored_candidate)
      = (fst after_update, snd after_update)"
    by (simp add: after_update_def)
  from upsert_existing_path[OF r i a e p c u]
  obtain reg item where
    "fst after_update = Inr reg"
    "items_of (heap (snd after_update)) reg = [item]"
    "read_prop (heap (snd after_update)) item ''created_at''
       = read_prop (heap stored_world) (Ref 1) ''created_at''"
    "read_prop (heap (snd after_update)) item ''updated_at''
       = Str (sample_clock (ticks stored_world))"
    "read_prop (heap (snd after_update)) item ''owner_team'' = Str (or_default (Some ''data'') [])"
    "elems (heap (snd after_update)) (read_prop (heap (snd after_update)) item ''tags'')
       = map Str (tag_list (Some [''new'']))"
    by blast
  with r a pe ce show ?thesis
    by (auto simp: tk sample_clock_def tag_list_def or_default_def)
qed

subsection \<open>Loading a registry\<close>







lemma read_registry_unreadable:
  assumes "content = None \<or> (\<exists>text. content = Some text \<and> (text = [] \<or> parse text = None))"
  shows "read_registry parse content w = new_registry w"
  using assms by (auto simp: read_registry_def)

text \<open>
  C6. Absent content (\<open>null\<close> or the empty string) and content that \<open>JSON.parse\<close>
  rejects both load as the initial registry: an object with the two fields \<open>version\<close>,
  which is \<open>'1'\<close>, and \<open>items\<close>, which is an array with no element; it is what the text
  of an empty registry would have been parsed to. The upsert that follows is therefore
  the upsert into an empty registry: it never fails, its result holds the candidate,
  with all its fields, as the only item, and the test on \<open>registry.items\<close> that comes
  after the upsert does not fail either.
\<close>

theorem unreadable_registry_as_empty:
  assumes c: "content = None \<or> (\<exists>text. content = Some text \<and> (text = [] \<or> parse text = None))"
    and l: "read_registry parse content w = (registry, w1)"
    and p: "prepare_entry pname dmn team src path tgs w1 = (entry, w2)"
    and u: "upsertRegistry now registry entry w2 = (res, w3)"
  shows "(registry, w1) = new_registry w
       \<and> (registry, w1) = parse_into (JObj [(''version'', JStr ''1''), (''items'', JArr [])]) w
       \<and> read_prop (heap w1) registry ''version'' = Str ''1''
       \<and> isArray (heap w1) (read_prop (heap w1) registry ''items'')
       \<and> items_of (heap w1) registry = []
       \<and> (\<forall>k. k \<noteq> ''version'' \<longrightarrow> k \<noteq> ''items'' \<longrightarrow>
              read_prop (heap w1) registry k = Undefined)
       \<and> (res, w3) = (let (registry0, v1) = new_registry w;
                          (entry0, v2) = prepare_entry pname dmn team src path tgs v1
                      in upsertRegistry now registry0 entry0 v2)
       \<and> (\<exists>reg item. res = Inr reg
              \<and> read_prop (heap w3) reg ''version'' = Str ''1''
              \<and> isArray (heap w3) (read_prop (heap w3) reg ''items'')
              \<and> items_of (heap w3) reg = [item]
              \<and> read_prop (heap w3) item ''product_name'' = Str pname
              \<and> read_prop (heap w3) item ''domain'' = Str dmn
              \<and> read_prop (heap w3) item ''owner_team'' = Str (or_default team [])
              \<and> read_prop (heap w3) item ''source_repo'' = Str (or_default src [])
              \<and> read_prop (heap w3) item ''prd_path'' = Str path
              \<and> elems (heap w3) (read_prop (heap w3) item ''tags'') = map Str (tag_list tgs)
              \<and> read_prop (heap w3) item ''created_at'' = Str (now (ticks w))
              \<and> read_prop (heap w3) item ''updated_at'' = Str (now (Suc (ticks w)))
              \<and> (\<forall>k. k \<noteq> ''created_at'' \<longrightarrow> k \<noteq> ''updated_at'' \<longrightarrow>
                     read_prop (heap w3) item k = read_prop (heap w2) entry k))
       \<and> registry_items_some (heap w3) registry path pname = Inr True"
proof -
  let ?n = "length (heap w)"
  let ?F = "fmupd ''items'' (Ref ?n) (fmupd ''version'' (Str ''1'') fmempty)"
  from l read_registry_unreadable[OF c] have new: "(registry, w1) = new_registry w"
    by simp
  then have reg: "registry = Ref (Suc ?n)"
    and w1: "w1 = w\<lparr>heap := heap w @ [Arr [], Obj ?F]\<rparr>"
    by (simp_all add: new_registry_eq)
  have parsed: "(registry, w1)
      = parse_into (JObj [(''version'', JStr ''1''), (''items'', JArr [])]) w"
    by (simp add: reg w1 parse_into_def)
  have ver: "read_prop (heap w1) registry ''version'' = Str ''1''"
    by (simp add: reg w1 read_prop_def get_prop_def cell_at_def nth_append)
  have arr: "isArray (heap w1) (read_prop (heap w1) registry ''items'')"
    by (simp add: reg w1 read_prop_def get_prop_def isArray_def cell_at_def nth_append)
  have emp: "items_of (heap w1) registry = []"
    by (simp add: reg w1 items_of_def read_prop_def get_prop_def elems_def cell_at_def nth_append)
  have two: "\<forall>k. k \<noteq> ''version'' \<longrightarrow> k \<noteq> ''items'' \<longrightarrow>
      read_prop (heap w1) registry k = Undefined"
    by (simp add: reg w1 read_prop_def get_prop_def cell_at_def nth_append)
  from new p u have same: "(res, w3) = (let (registry0, v1) = new_registry w;
                          (entry0, v2) = prepare_entry pname dmn team src path tgs v1
                      in upsertRegistry now registry0 entry0 v2)"
    by (simp add: new[symmetric])
  let ?obj = "entry_object pname dmn team src path (Ref (Suc (Suc ?n)))"
  from p have entry: "entry = Ref (Suc (Suc (Suc ?n)))"
    and w2: "w2 = w\<lparr>heap := heap w @ [Arr [], Obj ?F, Arr (map Str (tag_list tgs)), Obj ?obj]\<rparr>"
    by (simp_all add: prepare_entry_eq w1)
  have r2: "cell_at (heap w2) (Suc ?n) = Some (Obj ?F)"
    and a2: "cell_at (heap w2) ?n = Some (Arr [])"
    and e2: "cell_at (heap w2) (Suc (Suc (Suc ?n))) = Some (Obj ?obj)"
    by (simp_all add: w2 cell_at_def nth_append)
  have i: "fmlookup ?F ''items'' = Some (Ref ?n)" by simp
  have f: "findIndex (entry_matches (heap w2) entry) [] = Inr None" by simp
  have oe: "own_props (heap w2) entry = ?obj"
    using e2 by (simp add: entry own_props_def)
  have tk: "ticks w2 = ticks w" by (simp add: w2)
  let ?m = "length (heap w2)"
  let ?item = "fmupd ''updated_at'' (Str (now (Suc (ticks w))))
                 (fmupd ''created_at'' (Str (now (ticks w))) ?obj)"
  let ?h = "(heap w2)[?n := Arr [Ref ?m]]"
  from u upsert_insert[OF r2 i a2 f, of now] have res: "res = Inr (Ref (Suc ?m))"
    and h3: "heap w3 = ?h @ [Obj ?item, Obj (fmupd ''items'' (Ref ?n) ?F)]"
    unfolding reg oe tk by auto
  have len: "length ?h = ?m" by simp
  have m: "?m = Suc (Suc (Suc (Suc ?n)))" by (simp add: w2)
  have ver3: "read_prop (heap w3) (Ref (Suc ?m)) ''version'' = Str ''1''"
    by (simp add: h3 read_prop_def get_prop_def cell_at_def nth_append)
  have arr3: "isArray (heap w3) (read_prop (heap w3) (Ref (Suc ?m)) ''items'')"
    by (simp add: h3 m w2 read_prop_def get_prop_def isArray_def cell_at_def nth_append)
  have it: "items_of (heap w3) (Ref (Suc ?m)) = [Ref ?m]"
    unfolding h3 by (intro items_of_result) (simp_all add: w2)
  have rd: "read_prop (heap w3) (Ref ?m) k =
      (case fmlookup ?item k of Some x \<Rightarrow> x | None \<Rightarrow> Undefined)" for k
    unfolding h3 by (rule read_prop_new_item[OF len])
  have tg: "read_prop (heap w3) (Ref ?m) ''tags'' = Ref (Suc (Suc ?n))"
    by (simp add: rd entry_object_def)
  have "elems (heap w3) (Ref (Suc (Suc ?n))) = map Str (tag_list tgs)"
    by (simp add: h3 w2 elems_def cell_at_def nth_append)
  with tg have tags: "elems (heap w3) (read_prop (heap w3) (Ref ?m) ''tags'')
      = map Str (tag_list tgs)"
    by (simp only:)
  have rest: "\<forall>k. k \<noteq> ''created_at'' \<longrightarrow> k \<noteq> ''updated_at'' \<longrightarrow>
      read_prop (heap w3) (Ref ?m) k = read_prop (heap w2) entry k"
    by (simp add: rd entry read_prop_object[OF e2])
  have fields: "read_prop (heap w3) (Ref ?m) ''product_name'' = Str pname"
    "read_prop (heap w3) (Ref ?m) ''domain'' = Str dmn"
    "read_prop (heap w3) (Ref ?m) ''owner_team'' = Str (or_default team [])"
    "read_prop (heap w3) (Ref ?m) ''source_repo'' = Str (or_default src [])"
    "read_prop (heap w3) (Ref ?m) ''prd_path'' = Str path"
    "read_prop (heap w3) (Ref ?m) ''created_at'' = Str (now (ticks w))"
    "read_prop (heap w3) (Ref ?m) ''updated_at'' = Str (now (Suc (ticks w)))"
    by (simp_all add: rd entry_object_def)
  from res ver3 arr3 it fields tags rest
  have upserted: "\<exists>reg item. res = Inr reg
              \<and> read_prop (heap w3) reg ''version'' = Str ''1''
              \<and> isArray (heap w3) (read_prop (heap w3) reg ''items'')
              \<and> items_of (heap w3) reg = [item]
              \<and> read_prop (heap w3) item ''product_name'' = Str pname
              \<and> read_prop (heap w3) item ''domain'' = Str dmn
              \<and> read_prop (heap w3) item ''owner_team'' = Str (or_default team [])
              \<and> read_prop (heap w3) item ''source_repo'' = Str (or_default src [])
              \<and> read_prop (heap w3) item ''prd_path'' = Str path
              \<and> elems (heap w3) (read_prop (heap w3) item ''tags'') = map Str (tag_list tgs)
              \<and> read_prop (heap w3) item ''created_at'' = Str (now (ticks w))
              \<and> read_prop (heap w3) item ''updated_at'' = Str (now (Suc (ticks w)))
              \<and> (\<forall>k. k \<noteq> ''created_at'' \<longrightarrow> k \<noteq> ''updated_at'' \<longrightarrow>
                     read_prop (heap w3) item k = read_prop (heap w2) entry k)"
    by blast
  have gi: "get_prop (heap w3) registry ''items'' = Inr (Ref ?n)"
    by (simp add: h3 reg m w2 get_prop_def cell_at_def nth_append)
  have ia: "isArray (heap w3) (Ref ?n)"
    by (simp add: h3 m w2 isArray_def cell_at_def nth_append)
  have el: "elems (heap w3) (Ref ?n) = [Ref ?m]"
    by (simp add: h3 m w2 elems_def cell_at_def nth_append)
  have im: "item_matches (heap w3) path pname (Ref ?m) = Inr True"
    using len by (simp add: h3 item_matches_def get_prop_def cell_at_def nth_append
        entry_object_def)
  have later: "registry_items_some (heap w3) registry path pname = Inr True"
    by (simp add: registry_items_some_def gi ia el im)
  from new parsed ver arr emp two same upserted later show ?thesis by blast
qed

theorem unreadable_registry_as_empty_witness:
  "rejecting_parser ''not json'' = None
   \<and> read_registry rejecting_parser (Some ''not json'') empty_world = new_registry empty_world
   \<and> fst (new_registry empty_world) = Ref 1
   \<and> isArray (heap (snd (new_registry empty_world)))
        (read_prop (heap (snd (new_registry empty_world))) (Ref 1) ''items'')
   \<and> items_of (heap (snd (new_registry empty_world))) (Ref 1) = []
   \<and> (\<exists>reg item. fst after_insert = Inr reg
         \<and> isArray (heap (snd after_insert)) (read_prop (heap (snd after_insert)) reg ''items'')
         \<and> items_of (heap (snd after_insert)) reg = [item]
         \<and> read_prop (heap (snd after_insert)) item ''product_name'' = Str ''Foo''
         \<and> read_prop (heap (snd after_insert)) item ''domain'' = Str ''analytics''
         \<and> read_prop (heap (snd after_insert)) item ''owner_team'' = Str []
         \<and> read_prop (heap (snd after_insert)) item ''source_repo'' = Str []
         \<and> read_prop (heap (snd after_insert)) item ''prd_path'' = Str ''prds/analytics/foo.md''
         \<and> elems (heap (snd after_insert)) (read_prop (heap (snd after_insert)) item ''tags'')
             = []
         \<and> read_prop (heap (snd after_insert)) item ''created_at''
             = Str ''2024-01-15T10:30:45.999Z''
         \<and> read_prop (heap (snd after_insert)) item ''updated_at''
             = Str ''2024-01-15T10:30:46.000Z'')
   \<and> registry_items_some (heap (snd after_insert)) (Ref 1) ''prds/analytics/foo.md'' ''Foo''
       = Inr True"
proof -
  let ?w1 = "snd (new_registry empty_world)"
  have c: "Some ''not json'' = None
      \<or> (\<exists>text. Some ''not json'' = Some text \<and> (text = [] \<or> rejecting_parser text = None))"
    by (simp add: rejecting_parser_def)
  have l: "read_registry rejecting_parser (Some ''not json'') empty_world = (Ref 1, ?w1)"
    by (simp add: read_registry_def rejecting_parser_def new_registry_eq empty_world_def)
  have p: "prepare_entry ''Foo'' ''analytics'' None None ''prds/analytics/foo.md'' None ?w1
      = (Ref 3, fresh_world)"
    by (simp add: fresh_world_def prepare_entry_eq new_registry_eq empty_world_def
        eval_nat_numeral)
  have u: "upsertRegistry sample_clock (Ref 1) (Ref 3) fresh_world
      = (fst after_insert, snd after_insert)"
    by (simp add: after_insert_def)
  have rj: "rejecting_parser ''not json'' = None"
    by (simp add: rejecting_parser_def)
  have rr: "read_registry rejecting_parser (Some ''not json'') empty_world = new_registry empty_world"
    by (simp add: read_registry_def rejecting_parser_def)
  have f1: "fst (new_registry empty_world) = Ref 1"
    by (simp add: new_registry_eq empty_world_def)
  note loaded = unreadable_registry_as_empty[OF c l p u]
  note rest3 = loaded[THEN conjunct2, THEN conjunct2, THEN conjunct2]
  note rest7 = rest3[THEN conjunct2, THEN conjunct2, THEN conjunct2, THEN conjunct2]
  from rest3 have arr: "isArray (heap ?w1) (read_prop (heap ?w1) (Ref 1) ''items'')"
    by (rule conjunct1)
  from rest3[THEN conjunct2] have emp: "items_of (heap ?w1) (Ref 1) = []"
    by (rule conjunct1)
  from rest7 have later: "registry_items_some (heap (snd after_insert)) (Ref 1)
      ''prds/analytics/foo.md'' ''Foo'' = Inr True"
    by (rule conjunct2)
  from rest7[THEN conjunct1] obtain reg item where
    "fst after_insert = Inr reg"
    "isArray (heap (snd after_insert)) (read_prop (heap (snd after_insert)) reg ''items'')"
    "items_of (heap (snd after_insert)) reg = [item]"
    "read_prop (heap (snd after_insert)) item ''product_name'' = Str ''Foo''"
    "read_prop (heap (snd after_insert)) item ''domain'' = Str ''analytics''"
    "read_prop (heap (snd after_insert)) item ''owner_team'' = Str (or_default None [])"
    "read_prop (heap (snd after_insert)) item ''source_repo'' = Str (or_default None [])"
    "read_prop (heap (snd after_insert)) item ''prd_path'' = Str ''prds/analytics/foo.md''"
    "elems (heap (snd after_insert)) (read_prop (heap (snd after_insert)) item ''tags'')
       = map Str (tag_list None)"
    "read_prop (heap (snd after_insert)) item ''created_at''
       = Str (sample_clock (ticks empty_world))"
    "read_prop (heap (snd after_insert)) item ''updated_at''
       = Str (sample_clock (Suc (ticks empty_world)))"
    by blast
  then have "fst after_insert = Inr reg
         \<and> isArray (heap (snd after_insert)) (read_prop (heap (snd after_insert)) reg ''items'')
         \<and> items_of (heap (snd after_insert)) reg = [item]
         \<and> read_prop (heap (snd after_insert)) item ''product_name'' = Str ''Foo''
         \<and> read_prop (heap (snd after_insert)) item ''domain'' = Str ''analytics''
         \<and> read_prop (heap (snd after_insert)) item ''owner_team'' = Str []
         \<and> read_prop (heap (snd after_insert)) item ''source_repo'' = Str []
         \<and> read_prop (heap (snd after_insert)) item ''prd_path'' = Str ''prds/analytics/foo.md''
         \<and> elems (heap (snd after_insert)) (read_prop (heap (snd after_insert)) item ''tags'')
             = []
         \<and> read_prop (heap (snd after_insert)) item ''created_at''
             = Str ''2024-01-15T10:30:45.999Z''
         \<and> read_prop (heap (snd after_insert)) item ''updated_at''
             = Str ''2024-01-15T10:30:46.000Z''"
    by (simp add: or_default_def tag_list_def sample_clock_def empty_world_def)
  then have ex: "\<exists>reg item. fst after_insert = Inr reg
         \<and> isArray (heap (snd after_insert)) (read_prop (heap (snd after_insert)) reg ''items'')
         \<and> items_of (heap (snd after_insert)) reg = [item]
         \<and> read_prop (heap (snd after_insert)) item ''product_name'' = Str ''Foo''
         \<and> read_prop (heap (snd after_insert)) item ''domain'' = Str ''analytics''
         \<and> read_prop (heap (snd after_insert)) item ''owner_team'' = Str []
         \<and> read_prop (heap (snd after_insert)) item ''source_repo'' = Str []
         \<and> read_prop (heap (snd after_insert)) item ''prd_path'' = Str ''prds/analytics/foo.md''
         \<and> elems (heap (snd after_insert)) (read_prop (heap (snd after_insert)) item ''tags'')
             = []
         \<and> read_prop (heap (snd after_insert)) item ''created_at''
             = Str ''2024-01-15T10:30:45.999Z''
         \<and> read_prop (heap (snd after_insert)) item ''updated_at''
             = Str ''2024-01-15T10:30:46.000Z''"
    by blast
  from rj rr f1 arr emp ex later show ?thesis by blast
qed




subsection \<open>Searching the items\<close>

lemma findIndex_cong: "(\<And>x. x \<in> set xs \<Longrightarrow> p x = q x) \<Longrightarrow> findIndex p xs = findIndex q xs"
  by (induction xs) (auto split: sum.splits bool.splits)

lemma findIndex_None: "findIndex p xs = Inr None \<Longrightarrow> x \<in> set xs \<Longrightarrow> p x = Inr False"
  by (induction xs) (auto split: sum.splits bool.splits option.splits)

lemma findIndex_Some:
  "findIndex p xs = Inr (Some i) \<Longrightarrow>
     i < length xs \<and> p (xs ! i) = Inr True \<and> (\<forall>j<i. p (xs ! j) = Inr False)"
proof (induction xs arbitrary: i)
  case Nil
  then show ?case by simp
next
  case (Cons x xs)
  show ?case
  proof (cases "p x")
    case (Inl e)
    with Cons.prems show ?thesis by simp
  next
    case (Inr b)
    show ?thesis
    proof (cases b)
      case True
      with Inr Cons.prems show ?thesis by simp
    next
      case False
      with Inr Cons.prems obtain i' where i': "findIndex p xs = Inr (Some i')" "i = Suc i'"
        by (auto split: sum.splits option.splits)
      from Cons.IH[OF i'(1)] Inr False i'(2) show ?thesis
        by (auto simp: nth_Cons split: nat.splits)
    qed
  qed
qed

lemma findIndex_total:
  "(\<And>x. x \<in> set xs \<Longrightarrow> \<exists>b. p x = Inr b) \<Longrightarrow> \<exists>found. findIndex p xs = Inr found"
proof (induction xs)
  case Nil
  then show ?case by simp
next
  case (Cons x xs)
  from Cons.prems obtain b where b: "p x = Inr b" by auto
  from Cons have "\<exists>found. findIndex p xs = Inr found" by simp
  with b show ?case by (cases b) (auto split: option.splits)
qed

lemma some_found:
  "i < length ys \<Longrightarrow> q (ys ! i) = Inr True \<Longrightarrow> (\<And>j. j < i \<Longrightarrow> q (ys ! j) = Inr False) \<Longrightarrow>
     some q ys = Inr True"
proof (induction ys arbitrary: i)
  case Nil
  then show ?case by simp
next
  case (Cons y ys)
  show ?case
  proof (cases i)
    case 0
    with Cons.prems(2) show ?thesis by simp
  next
    case (Suc i')
    from Cons.prems(3)[of 0] Suc have y: "q y = Inr False" by simp
    have "some q ys = Inr True"
    proof (rule Cons.IH[of i'])
      show "i' < length ys" using Cons.prems(1) Suc by simp
      show "q (ys ! i') = Inr True" using Cons.prems(2) Suc by simp
      show "q (ys ! j) = Inr False" if "j < i'" for j
        using Cons.prems(3)[of "Suc j"] that Suc by simp
    qed
    with y show ?thesis by simp
  qed
qed

subsection \<open>Objects keep their properties\<close>

lemma is_objectD: "is_object h x \<Longrightarrow> \<exists>b ps. x = Ref b \<and> cell_at h b = Some (Obj ps)"
  by (auto simp: is_object_def split: val.splits option.splits cell.splits)

lemma get_prop_frame:
  assumes "is_object h x" and "cell_at h a = Some (Arr ys0)"
  shows "get_prop (h[a := Arr ys] @ ext) x k = get_prop h x k"
proof -
  from is_objectD[OF assms(1)] obtain b ps where x: "x = Ref b" and b: "cell_at h b = Some (Obj ps)"
    by blast
  from b assms(2) have "b < length h" "b \<noteq> a"
    by (auto dest!: cell_at_SomeD)
  then show ?thesis
    by (simp add: x get_prop_def cell_at_def nth_append)
qed

lemma get_prop_append:
  assumes "is_object h x"
  shows "get_prop (h @ ext) x k = get_prop h x k"
proof -
  from is_objectD[OF assms] obtain b ps where x: "x = Ref b" and b: "cell_at h b = Some (Obj ps)"
    by blast
  then have "b < length h" by (auto dest: cell_at_SomeD)
  then show ?thesis by (simp add: x get_prop_def cell_at_def nth_append)
qed

lemma is_object_append: "is_object h x \<Longrightarrow> is_object (h @ ext) x"
  by (auto simp: is_object_def cell_at_def nth_append split: val.splits if_splits)

lemma get_prop_object: "is_object h x \<Longrightarrow> get_prop h x k = Inr (read_prop h x k)"
  by (auto dest!: is_objectD simp: read_prop_def get_prop_def)

lemma item_matches_object:
  "is_object h x \<Longrightarrow>
   item_matches h path pname x =
     Inr (read_prop h x ''prd_path'' = Str path \<or> read_prop h x ''product_name'' = Str pname)"
  by (simp add: item_matches_def get_prop_object)

lemma entry_matches_candidate:
  assumes "get_prop h entry ''prd_path'' = Inr (Str path)"
    and "get_prop h entry ''product_name'' = Inr (Str pname)"
  shows "entry_matches h entry x = item_matches h path pname x"
  using assms by (auto simp: entry_matches_def item_matches_def split: sum.splits)

lemma registry_shapeD:
  assumes "registry_shape h registry"
  shows "\<exists>r fs a xs. registry = Ref r \<and> cell_at h r = Some (Obj fs)
           \<and> fmlookup fs ''items'' = Some (Ref a) \<and> cell_at h a = Some (Arr xs)
           \<and> items_of h registry = xs \<and> list_all (is_object h) xs"
proof -
  from assms have o: "is_object h registry" and ia: "isArray h (read_prop h registry ''items'')"
    and all: "list_all (is_object h) (items_of h registry)"
    by (simp_all add: registry_shape_def)
  from is_objectD[OF o] obtain r fs where r: "registry = Ref r" "cell_at h r = Some (Obj fs)"
    by blast
  from ia obtain a xs where a: "read_prop h registry ''items'' = Ref a" "cell_at h a = Some (Arr xs)"
    by (auto simp: isArray_def split: val.splits option.splits cell.splits)
  from a(1) r have i: "fmlookup fs ''items'' = Some (Ref a)"
    by (auto simp: read_prop_object split: option.splits)
  have "items_of h registry = xs"
    using a by (simp add: items_of_def elems_def)
  with r i a all show ?thesis by auto
qed

lemma distinct_list_update:
  assumes "distinct ps" and "i < length ps" and "v \<notin> set (take i ps @ drop (Suc i) ps)"
  shows "distinct (ps[i := v])"
proof -
  have ps: "ps = take i ps @ ps ! i # drop (Suc i) ps"
    using assms(2) by (simp add: id_take_nth_drop)
  then have "distinct (take i ps @ ps ! i # drop (Suc i) ps)"
    using assms(1) by simp
  then have "distinct (take i ps @ v # drop (Suc i) ps)"
    using assms(3) by auto
  moreover have "ps[i := v] = take i ps @ v # drop (Suc i) ps"
    using assms(2) by (simp add: upd_conv_take_nth_drop)
  ultimately show ?thesis by simp
qed

subsection \<open>The upsert on a registry of the specified shape\<close>

lemma read_prop_append: "is_object h x \<Longrightarrow> read_prop (h @ ext) x k = read_prop h x k"
  by (simp add: read_prop_def get_prop_append)

lemma upsert_shaped:
  assumes s: "registry_shape (heap w) registry"
    and p: "prepare_entry pname dmn team src path tgs w = (entry, w1)"
    and u: "upsertRegistry now registry entry w1 = (res, w2)"
  shows "\<exists>r fs a xs found item.
      registry = Ref r \<and> cell_at (heap w) r = Some (Obj fs)
      \<and> fmlookup fs ''items'' = Some (Ref a) \<and> cell_at (heap w) a = Some (Arr xs)
      \<and> items_of (heap w) registry = xs \<and> list_all (is_object (heap w)) xs
      \<and> findIndex (item_matches (heap w) path pname) xs = Inr found
      \<and> res = Inr (Ref (Suc (length (heap w1))))
      \<and> heap w2 =
          (heap w1)[a := Arr (case found of
                                None \<Rightarrow> xs @ [Ref (length (heap w1))]
                              | Some i \<Rightarrow> xs[i := Ref (length (heap w1))])]
          @ [Obj item, Obj (fmupd ''items'' (Ref a) fs)]
      \<and> fmlookup item ''prd_path'' = Some (Str path)
      \<and> calls w2 = calls w"
proof -
  from registry_shapeD[OF s] obtain r fs a xs where
    reg: "registry = Ref r" and r: "cell_at (heap w) r = Some (Obj fs)"
    and i: "fmlookup fs ''items'' = Some (Ref a)" and a: "cell_at (heap w) a = Some (Arr xs)"
    and it: "items_of (heap w) registry = xs" and objs: "list_all (is_object (heap w)) xs"
    by blast
  let ?n = "length (heap w)"
  let ?obj = "entry_object pname dmn team src path (Ref ?n)"
  from p have entry: "entry = Ref (Suc ?n)"
    and w1: "w1 = w\<lparr>heap := heap w @ [Arr (map Str (tag_list tgs)), Obj ?obj]\<rparr>"
    by (simp_all add: prepare_entry_eq)
  from r a have lt: "r < ?n" "a < ?n" by (auto dest: cell_at_SomeD)
  have r1: "cell_at (heap w1) r = Some (Obj fs)" and a1: "cell_at (heap w1) a = Some (Arr xs)"
    using r a lt by (simp_all add: w1 cell_at_def nth_append)
  have c1: "cell_at (heap w1) (Suc ?n) = Some (Obj ?obj)"
    by (simp add: w1 cell_at_def nth_append)
  have gp: "get_prop (heap w1) entry ''prd_path'' = Inr (Str path)"
    and gn: "get_prop (heap w1) entry ''product_name'' = Inr (Str pname)"
    using c1 by (simp_all add: entry get_prop_def entry_object_def)
  have oe: "own_props (heap w1) entry = ?obj"
    using c1 by (simp add: entry own_props_def)
  have same: "entry_matches (heap w1) entry x = item_matches (heap w) path pname x"
    if "x \<in> set xs" for x
  proof -
    from that objs have "is_object (heap w) x" by (simp add: list_all_iff)
    then have "item_matches (heap w1) path pname x = item_matches (heap w) path pname x"
      by (simp add: w1 item_matches_object is_object_append read_prop_append)
    then show ?thesis by (simp add: entry_matches_candidate[OF gp gn])
  qed
  have fi: "findIndex (entry_matches (heap w1) entry) xs
      = findIndex (item_matches (heap w) path pname) xs"
    by (rule findIndex_cong) (rule same)
  have "\<exists>found. findIndex (item_matches (heap w) path pname) xs = Inr found"
  proof (rule findIndex_total)
    fix x assume "x \<in> set xs"
    with objs have "is_object (heap w) x" by (simp add: list_all_iff)
    then show "\<exists>b. item_matches (heap w) path pname x = Inr b"
      by (simp add: item_matches_object)
  qed
  then obtain found where found: "findIndex (item_matches (heap w) path pname) xs = Inr found"
    by blast
  have cw: "calls w1 = calls w" by (simp add: w1)
  show ?thesis
  proof (cases found)
    case None
    let ?item = "fmupd ''updated_at'' (Str (now (Suc (ticks w1))))
                   (fmupd ''created_at'' (Str (now (ticks w1))) ?obj)"
    from found None fi have f: "findIndex (entry_matches (heap w1) entry) xs = Inr None"
      by simp
    from u upsert_insert[OF r1 i a1 f, of now]
    have "res = Inr (Ref (Suc (length (heap w1))))"
      and "heap w2 = (heap w1)[a := Arr (xs @ [Ref (length (heap w1))])]
             @ [Obj ?item, Obj (fmupd ''items'' (Ref a) fs)]"
      and "calls w2 = calls w1"
      unfolding reg oe by auto
    moreover have "fmlookup ?item ''prd_path'' = Some (Str path)"
      by (simp add: entry_object_def)
    ultimately show ?thesis
      using reg r i a it objs found None cw by auto
  next
    case (Some idx)
    let ?item = "fmupd ''updated_at'' (Str (now (ticks w1)))
                   (own_props (heap w1) (xs ! idx) ++\<^sub>f ?obj)"
    from found Some fi have f: "findIndex (entry_matches (heap w1) entry) xs = Inr (Some idx)"
      by simp
    from u upsert_update[OF r1 i a1 f, of now]
    have "res = Inr (Ref (Suc (length (heap w1))))"
      and "heap w2 = (heap w1)[a := Arr (xs[idx := Ref (length (heap w1))])]
             @ [Obj ?item, Obj (fmupd ''items'' (Ref a) fs)]"
      and "calls w2 = calls w1"
      unfolding reg oe by auto
    moreover have "fmlookup ?item ''prd_path'' = Some (Str path)"
      by (simp add: entry_object_def)
    ultimately show ?thesis
      using reg r i a it objs found Some cw by auto
  qed
qed

text \<open>
  C3. Nothing in the upsert looks for a second entry that already has the candidate's
  \<open>prd_path\<close>. When the first entry that matches does so by its name alone, it takes
  over the candidate's path, and another entry may have that path already. With no such
  other entry, paths that were unique remain unique.
\<close>

theorem upsert_keeps_unique_paths:
  assumes s: "registry_shape (heap w) registry"
    and q: "unique_paths (heap w) registry"
    and e: "\<not> path_taken_elsewhere (heap w) registry path pname"
    and p: "prepare_entry pname dmn team src path tgs w = (entry, w1)"
    and u: "upsertRegistry now registry entry w1 = (res, w2)"
  shows "\<exists>reg. res = Inr reg \<and> unique_paths (heap w2) reg"
proof -
  let ?m = "length (heap w1)"
  from upsert_shaped[OF s p u] obtain r fs a xs found item where
    a: "cell_at (heap w) a = Some (Arr xs)"
    and it: "items_of (heap w) registry = xs" and objs: "list_all (is_object (heap w)) xs"
    and found: "findIndex (item_matches (heap w) path pname) xs = Inr found"
    and res: "res = Inr (Ref (Suc ?m))"
    and h2: "heap w2 =
          (heap w1)[a := Arr (case found of None \<Rightarrow> xs @ [Ref ?m] | Some i \<Rightarrow> xs[i := Ref ?m])]
          @ [Obj item, Obj (fmupd ''items'' (Ref a) fs)]"
    and ip: "fmlookup item ''prd_path'' = Some (Str path)"
    by blast
  let ?ys = "case found of None \<Rightarrow> xs @ [Ref ?m] | Some i \<Rightarrow> xs[i := Ref ?m]"
  let ?f = "\<lambda>x. read_prop (heap w) x ''prd_path''"
  let ?g = "\<lambda>x. read_prop (heap w2) x ''prd_path''"
  from p have w1: "heap w1 = heap w @ [Arr (map Str (tag_list tgs)),
      Obj (entry_object pname dmn team src path (Ref (length (heap w))))]"
    by (auto simp: prepare_entry_eq)
  from a have lt: "a < length (heap w)" by (auto dest: cell_at_SomeD)
  then have a1: "cell_at (heap w1) a = Some (Arr xs)"
    using a by (simp add: w1 cell_at_def nth_append)
  have items2: "items_of (heap w2) (Ref (Suc ?m)) = ?ys"
    unfolding h2 using lt by (intro items_of_result) (simp_all add: w1)
  have new: "?g (Ref ?m) = Str path"
    unfolding h2 by (subst read_prop_new_item) (simp_all add: ip)
  have old: "?g x = ?f x" if "x \<in> set xs" for x
  proof -
    from that objs have o: "is_object (heap w) x" by (simp add: list_all_iff)
    then have "is_object (heap w1) x" by (simp add: w1 is_object_append)
    then have "get_prop (heap w2) x ''prd_path'' = get_prop (heap w1) x ''prd_path''"
      unfolding h2 by (rule get_prop_frame[OF _ a1])
    also have "\<dots> = get_prop (heap w) x ''prd_path''"
      unfolding w1 by (rule get_prop_append[OF o])
    finally show ?thesis by (simp add: read_prop_def)
  qed
  then have mp: "map ?g xs = map ?f xs" by simp
  have P: "paths_of (heap w) registry = map ?f xs" by (simp add: paths_of_def it)
  from q have d: "distinct (map ?f xs)" by (simp add: unique_paths_def P)
  have "distinct (map ?g ?ys)"
  proof (cases found)
    case None
    have "Str path \<notin> set (map ?f xs)"
    proof
      assume "Str path \<in> set (map ?f xs)"
      then obtain x where x: "x \<in> set xs" "?f x = Str path" by auto
      from x(1) objs have "is_object (heap w) x" by (simp add: list_all_iff)
      with x(2) have "item_matches (heap w) path pname x = Inr True"
        by (simp add: item_matches_object)
      moreover from findIndex_None[OF _ x(1)] found None
      have "item_matches (heap w) path pname x = Inr False" by simp
      ultimately show False by simp
    qed
    with d show ?thesis by (simp add: None mp new)
  next
    case (Some idx)
    from findIndex_Some found Some have idx: "idx < length xs" by blast
    from e found Some have "Str path \<notin> set (take idx (map ?f xs) @ drop (Suc idx) (map ?f xs))"
      by (simp add: path_taken_elsewhere_def it P)
    with d idx have "distinct ((map ?f xs)[idx := Str path])"
      by (intro distinct_list_update) simp_all
    then show ?thesis by (simp add: Some map_update mp new)
  qed
  then have "unique_paths (heap w2) (Ref (Suc ?m))"
    by (simp add: unique_paths_def paths_of_def items2)
  with res show ?thesis by simp
qed

lemma clash_world_heap:
  "clash_world =
      \<lparr>heap = [Obj (fmupd ''prd_path'' (Str ''prds/x/a.md'')
                   (fmupd ''product_name'' (Str ''A'') fmempty)),
               Obj (fmupd ''prd_path'' (Str ''prds/d/a.md'')
                   (fmupd ''product_name'' (Str ''a'') fmempty)),
               Arr [Ref 0, Ref 1],
               Obj (fmupd ''items'' (Ref 2) (fmupd ''version'' (Str ''1'') fmempty))],
       ticks = 0, calls = []\<rparr>"
  by (simp add: clash_world_def clash_json_def parse_into_def empty_world_def eval_nat_numeral)

lemma sanitize_A: "sanitizeFilename ''A'' = ''a''"
  by code_simp

lemma moved_candidate_eq:
  "moved_candidate =
     (Ref 5, clash_world\<lparr>heap := heap clash_world @
        [Arr [], Obj (entry_object ''A'' ''y'' None None ''prds/y/a.md'' (Ref 4))]\<rparr>)"
  by (simp add: moved_candidate_def prepare_entry_eq sanitize_A clash_world_heap tag_list_def
      eval_nat_numeral)

lemma after_move_heap:
  "fst after_move = Inr (Ref 7)
   \<and> heap (snd after_move) =
       [Obj (fmupd ''prd_path'' (Str ''prds/x/a.md'')
            (fmupd ''product_name'' (Str ''A'') fmempty)),
        Obj (fmupd ''prd_path'' (Str ''prds/d/a.md'')
            (fmupd ''product_name'' (Str ''a'') fmempty)),
        Arr [Ref 6, Ref 1],
        Obj (fmupd ''items'' (Ref 2) (fmupd ''version'' (Str ''1'') fmempty)),
        Arr [],
        Obj (entry_object ''A'' ''y'' None None ''prds/y/a.md'' (Ref 4)),
        Obj (fmupd ''updated_at'' (Str ''2024-01-15T10:30:45.999Z'')
              (fmupd ''prd_path'' (Str ''prds/x/a.md'')
                (fmupd ''product_name'' (Str ''A'') fmempty)
               ++\<^sub>f entry_object ''A'' ''y'' None None ''prds/y/a.md'' (Ref 4))),
        Obj (fmupd ''items'' (Ref 2) (fmupd ''items'' (Ref 2) (fmupd ''version'' (Str ''1'') fmempty)))]"
  by (simp add: after_move_def moved_candidate_eq clash_world_heap upsertRegistry_def
      get_prop_def isArray_def elems_def cell_at_def entry_matches_def entry_object_def
      alloc_def new_Date_toISOString_def array_set_def own_props_def sample_clock_def Let_def)

theorem upsert_keeps_unique_paths_witness:
  "registry_shape (heap clash_world) (Ref 3)
   \<and> paths_of (heap clash_world) (Ref 3) = [Str ''prds/x/a.md'', Str ''prds/d/a.md'']
   \<and> unique_paths (heap clash_world) (Ref 3)
   \<and> findIndex (item_matches (heap clash_world) ''prds/y/a.md'' ''A'')
         (items_of (heap clash_world) (Ref 3)) = Inr (Some 0)
   \<and> \<not> path_taken_elsewhere (heap clash_world) (Ref 3) ''prds/y/a.md'' ''A''
   \<and> (\<exists>reg. fst after_move = Inr reg
         \<and> unique_paths (heap (snd after_move)) reg
         \<and> paths_of (heap (snd after_move)) reg = [Str ''prds/y/a.md'', Str ''prds/d/a.md''])"
proof -
  have items: "items_of (heap clash_world) (Ref 3) = [Ref 0, Ref 1]"
    by (simp add: clash_world_heap items_of_def read_prop_def get_prop_def elems_def cell_at_def)
  have paths: "paths_of (heap clash_world) (Ref 3) = [Str ''prds/x/a.md'', Str ''prds/d/a.md'']"
    by (simp add: paths_of_def items)
      (simp add: clash_world_heap read_prop_def get_prop_def cell_at_def)
  have o: "is_object (heap clash_world) (Ref 0)" "is_object (heap clash_world) (Ref 1)"
    by (simp_all add: clash_world_heap is_object_def cell_at_def)
  have s: "registry_shape (heap clash_world) (Ref 3)"
    unfolding registry_shape_def items using o
    by (simp add: clash_world_heap is_object_def isArray_def read_prop_def get_prop_def
        cell_at_def)
  have q: "unique_paths (heap clash_world) (Ref 3)"
    by (simp add: unique_paths_def paths)
  have m: "item_matches (heap clash_world) ''prds/y/a.md'' ''A'' (Ref 0) = Inr True"
    by (simp add: clash_world_heap item_matches_def get_prop_def cell_at_def)
  have f: "findIndex (item_matches (heap clash_world) ''prds/y/a.md'' ''A'')
      (items_of (heap clash_world) (Ref 3)) = Inr (Some 0)"
    by (simp add: items m)
  have e: "\<not> path_taken_elsewhere (heap clash_world) (Ref 3) ''prds/y/a.md'' ''A''"
    by (simp add: path_taken_elsewhere_def f paths)
  have p: "prepare_entry ''A'' ''y'' None None ''prds/y/a.md'' None clash_world
      = (fst moved_candidate, snd moved_candidate)"
    by (simp add: moved_candidate_def sanitize_A)
  have u: "upsertRegistry sample_clock (Ref 3) (fst moved_candidate) (snd moved_candidate)
      = (fst after_move, snd after_move)"
    by (simp add: after_move_def)
  have after: "paths_of (heap (snd after_move)) (Ref 7) = [Str ''prds/y/a.md'', Str ''prds/d/a.md'']"
    by (simp add: after_move_heap paths_of_def items_of_def read_prop_def get_prop_def elems_def
        cell_at_def entry_object_def)
  from upsert_keeps_unique_paths[OF s q e p u] obtain reg where
    r: "fst after_move = Inr reg" and d: "unique_paths (heap (snd after_move)) reg"
    by blast
  from r have "reg = Ref 7" by (simp add: after_move_heap)
  with r d after have "\<exists>reg. fst after_move = Inr reg
         \<and> unique_paths (heap (snd after_move)) reg
         \<and> paths_of (heap (snd after_move)) reg = [Str ''prds/y/a.md'', Str ''prds/d/a.md'']"
    by blast
  with s paths q f e show ?thesis by blast
qed

lemma clash_candidate_eq:
  "clash_candidate =
     (Ref 5, clash_world\<lparr>heap := heap clash_world @
        [Arr [], Obj (entry_object ''A'' ''d'' None None ''prds/d/a.md'' (Ref 4))]\<rparr>)"
  by (simp add: clash_candidate_def prepare_entry_eq sanitize_A clash_world_heap tag_list_def
      eval_nat_numeral)

lemma after_clash_heap:
  "fst after_clash = Inr (Ref 7)
   \<and> heap (snd after_clash) =
       [Obj (fmupd ''prd_path'' (Str ''prds/x/a.md'')
            (fmupd ''product_name'' (Str ''A'') fmempty)),
        Obj (fmupd ''prd_path'' (Str ''prds/d/a.md'')
            (fmupd ''product_name'' (Str ''a'') fmempty)),
        Arr [Ref 6, Ref 1],
        Obj (fmupd ''items'' (Ref 2) (fmupd ''version'' (Str ''1'') fmempty)),
        Arr [],
        Obj (entry_object ''A'' ''d'' None None ''prds/d/a.md'' (Ref 4)),
        Obj (fmupd ''updated_at'' (Str ''2024-01-15T10:30:45.999Z'')
              (fmupd ''prd_path'' (Str ''prds/x/a.md'')
                (fmupd ''product_name'' (Str ''A'') fmempty)
               ++\<^sub>f entry_object ''A'' ''d'' None None ''prds/d/a.md'' (Ref 4))),
        Obj (fmupd ''items'' (Ref 2) (fmupd ''items'' (Ref 2) (fmupd ''version'' (Str ''1'') fmempty)))]"
  by (simp add: after_clash_def clash_candidate_eq clash_world_heap upsertRegistry_def
      get_prop_def isArray_def elems_def cell_at_def entry_matches_def entry_object_def
      alloc_def new_Date_toISOString_def array_set_def own_props_def sample_clock_def Let_def)

theorem upsert_duplicates_path:
  "registry_shape (heap clash_world) (Ref 3)
   \<and> paths_of (heap clash_world) (Ref 3) = [Str ''prds/x/a.md'', Str ''prds/d/a.md'']
   \<and> unique_paths (heap clash_world) (Ref 3)
   \<and> fst after_clash = Inr (Ref 7)
   \<and> paths_of (heap (snd after_clash)) (Ref 7) = [Str ''prds/d/a.md'', Str ''prds/d/a.md'']
   \<and> \<not> unique_paths (heap (snd after_clash)) (Ref 7)"
  by (simp add: after_clash_heap clash_world_heap registry_shape_def unique_paths_def paths_of_def
      items_of_def read_prop_def get_prop_def elems_def cell_at_def is_object_def isArray_def
      entry_object_def)

section \<open>Properties of publishing\<close>

subsection \<open>Who calls the remote repository\<close>

lemma array_set_calls: "calls (array_set arr i x w) = calls w"
  by (simp add: array_set_def split: val.splits option.splits cell.splits)

lemma array_push_calls: "calls (array_push arr x w) = calls w"
  by (simp add: array_push_def split: val.splits option.splits cell.splits)

lemma upsert_calls: "calls (snd (upsertRegistry now registry entry w)) = calls w"
  unfolding upsertRegistry_def
  by (simp add: Let_def alloc_def new_Date_toISOString_def array_set_calls array_push_calls
      split: sum.splits option.splits prod.splits if_splits)

lemma read_registry_calls: "calls (snd (read_registry parse content w)) = calls w"
  by (simp add: read_registry_def new_registry_eq parse_into_def
      split: option.splits prod.splits)

lemma classify_calls:
  "calls (snd (classify env opts r w)) = calls w @ [GetFile ''registry.json'' (r_base r)]"
proof -
  let ?w1 = "log_call (GetFile ''registry.json'' (r_base r)) w"
  show ?thesis
  proof (cases "remote_getFile env (r_client r) ''registry.json'' (r_base r)")
    case (Inl e)
    then show ?thesis by (simp add: classify_def getFile_def log_call_def)
  next
    case (Inr content)
    obtain registry w2 where l: "read_registry (JSON_parse env) content ?w1 = (registry, w2)"
      by (cases "read_registry (JSON_parse env) content ?w1")
    obtain entry w3 where p: "prepare_entry (r_name r) (domain opts) (ownerTeam opts) (r_source r)
        (r_path r) (tags opts) w2 = (entry, w3)"
      by (cases "prepare_entry (r_name r) (domain opts) (ownerTeam opts) (r_source r)
        (r_path r) (tags opts) w2")
    obtain res w4 where u: "upsertRegistry (clock env) registry entry w3 = (res, w4)"
      by (cases "upsertRegistry (clock env) registry entry w3")
    from read_registry_calls[of "JSON_parse env" content ?w1] l
    have c2: "calls w2 = calls ?w1" by simp
    from p have c3: "calls w3 = calls w2" by (auto simp: prepare_entry_eq)
    from upsert_calls[of "clock env" registry entry w3] u have c4: "calls w4 = calls w3" by simp
    have "snd (classify env opts r w) = w4"
      by (simp add: classify_def getFile_def Inr l p u split: sum.splits)
    with c2 c3 c4 show ?thesis by (simp add: log_call_def)
  qed
qed

lemma dry_run_open:
  assumes "dryRun opts = Some True"
  shows "\<exists>w'. open_pull_request env opts r reg isUpdate w = (Inr dry_run_success, w')
           \<and> calls w' = calls w"
  using assms
  by (simp add: open_pull_request_def generateBranchName_def new_Date_toISOString_def Let_def)

lemma failure_not_success: "\<not> success (failure msg)" "\<not> success (caught e)"
  by (simp_all add: failure_def caught_def)

lemma resolve_request_Return: "resolve_request env opts = Return res \<Longrightarrow> \<not> success res"
  by (auto simp: resolve_request_def Let_def failure_def
      split: prod.splits if_splits sum.splits option.splits)

subsection \<open>The classification\<close>

text \<open>
  \<open>isUpdate\<close> is computed after the upsert, from the array the upsert has written to:
  the entry that was just stored is found there, so the answer is always \<open>true\<close>.
\<close>

lemma items_some_after_upsert:
  assumes s: "registry_shape (heap w) registry"
    and p: "prepare_entry pname dmn team src path tgs w = (entry, w1)"
    and u: "upsertRegistry now registry entry w1 = (res, w2)"
  shows "\<exists>reg. res = Inr reg \<and> registry_items_some (heap w2) registry path pname = Inr True"
proof -
  let ?m = "length (heap w1)"
  from upsert_shaped[OF s p u] obtain r fs a xs found item where
    reg: "registry = Ref r" and r: "cell_at (heap w) r = Some (Obj fs)"
    and i: "fmlookup fs ''items'' = Some (Ref a)" and a: "cell_at (heap w) a = Some (Arr xs)"
    and objs: "list_all (is_object (heap w)) xs"
    and found: "findIndex (item_matches (heap w) path pname) xs = Inr found"
    and res: "res = Inr (Ref (Suc ?m))"
    and h2: "heap w2 =
          (heap w1)[a := Arr (case found of None \<Rightarrow> xs @ [Ref ?m] | Some i \<Rightarrow> xs[i := Ref ?m])]
          @ [Obj item, Obj (fmupd ''items'' (Ref a) fs)]"
    and ip: "fmlookup item ''prd_path'' = Some (Str path)"
    by blast
  let ?ys = "case found of None \<Rightarrow> xs @ [Ref ?m] | Some i \<Rightarrow> xs[i := Ref ?m]"
  from p have w1: "heap w1 = heap w @ [Arr (map Str (tag_list tgs)),
      Obj (entry_object pname dmn team src path (Ref (length (heap w))))]"
    by (auto simp: prepare_entry_eq)
  from r a have lt: "r < length (heap w)" "a < length (heap w)" and ne: "r \<noteq> a"
    by (auto dest!: cell_at_SomeD)
  have a1: "cell_at (heap w1) a = Some (Arr xs)"
    using a lt by (simp add: w1 cell_at_def nth_append)
  have r2: "cell_at (heap w2) r = Some (Obj fs)"
    using r lt ne by (auto simp: h2 w1 cell_at_def nth_append)
  have a2: "cell_at (heap w2) a = Some (Arr ?ys)"
    using lt by (simp add: h2 w1 cell_at_def nth_append)
  have gi: "get_prop (heap w2) registry ''items'' = Inr (Ref a)"
    using r2 i by (simp add: reg get_prop_def)
  have ia: "isArray (heap w2) (Ref a)" using a2 by (simp add: isArray_def)
  have el: "elems (heap w2) (Ref a) = ?ys" using a2 by (simp add: elems_def)
  have new: "item_matches (heap w2) path pname (Ref ?m) = Inr True"
    using ip by (simp add: h2 item_matches_def get_prop_def cell_at_def nth_append)
  have old: "item_matches (heap w2) path pname x = item_matches (heap w) path pname x"
    if "x \<in> set xs" for x
  proof -
    from that objs have o: "is_object (heap w) x" by (simp add: list_all_iff)
    then have o1: "is_object (heap w1) x" by (simp add: w1 is_object_append)
    have "get_prop (heap w2) x k = get_prop (heap w) x k" for k
    proof -
      have "get_prop (heap w2) x k = get_prop (heap w1) x k"
        unfolding h2 by (rule get_prop_frame[OF o1 a1])
      also have "\<dots> = get_prop (heap w) x k"
        unfolding w1 by (rule get_prop_append[OF o])
      finally show ?thesis .
    qed
    then show ?thesis by (auto simp: item_matches_def split: sum.splits)
  qed
  have "some (item_matches (heap w2) path pname) ?ys = Inr True"
  proof (cases found)
    case None
    show ?thesis
    proof (rule some_found[of "length xs"])
      show "length xs < length ?ys" by (simp add: None)
      show "item_matches (heap w2) path pname (?ys ! length xs) = Inr True"
        by (simp add: None new)
      show "item_matches (heap w2) path pname (?ys ! j) = Inr False" if "j < length xs" for j
      proof -
        from that have m: "xs ! j \<in> set xs" by simp
        from findIndex_None[OF _ m] found None
        have "item_matches (heap w) path pname (xs ! j) = Inr False" by simp
        with that old[OF m] show ?thesis by (simp add: None nth_append)
      qed
    qed
  next
    case (Some idx)
    from findIndex_Some found Some have idx: "idx < length xs"
      and before: "\<And>j. j < idx \<Longrightarrow> item_matches (heap w) path pname (xs ! j) = Inr False"
      by blast+
    show ?thesis
    proof (rule some_found[of idx])
      show "idx < length ?ys" using idx by (simp add: Some)
      show "item_matches (heap w2) path pname (?ys ! idx) = Inr True"
        using idx by (simp add: Some new)
      show "item_matches (heap w2) path pname (?ys ! j) = Inr False" if "j < idx" for j
      proof -
        from that idx have m: "xs ! j \<in> set xs" by simp
        from that before[OF that] old[OF m] show ?thesis by (simp add: Some)
      qed
    qed
  qed
  then have "registry_items_some (heap w2) registry path pname = Inr True"
    by (simp add: registry_items_some_def gi ia el)
  with res show ?thesis by simp
qed

lemma classify_shaped:
  assumes gf: "remote_getFile env (r_client r) ''registry.json'' (r_base r) = Inr content"
    and l: "read_registry (JSON_parse env) content
              (log_call (GetFile ''registry.json'' (r_base r)) w) = (registry, w1)"
    and s: "registry_shape (heap w1) registry"
  shows "\<exists>reg w4. classify env opts r w = (Inr (reg, True), w4)"
proof -
  obtain entry w2 where p: "prepare_entry (r_name r) (domain opts) (ownerTeam opts) (r_source r)
      (r_path r) (tags opts) w1 = (entry, w2)"
    by (cases "prepare_entry (r_name r) (domain opts) (ownerTeam opts) (r_source r)
      (r_path r) (tags opts) w1")
  obtain res w3 where u: "upsertRegistry (clock env) registry entry w2 = (res, w3)"
    by (cases "upsertRegistry (clock env) registry entry w2")
  from items_some_after_upsert[OF s p u] obtain reg where
    "res = Inr reg" "registry_items_some (heap w3) registry (r_path r) (r_name r) = Inr True"
    by blast
  then show ?thesis
    by (simp add: classify_def getFile_def gf l p u)
qed

subsection \<open>No pull request says Add\<close>

lemma pull_requests_append: "pull_requests (xs @ ys) = pull_requests xs @ pull_requests ys"
  by (simp add: pull_requests_def)

lemma write_files_pull_requests:
  "pull_requests (calls (snd (write_files env cfg branch fs w))) = pull_requests (calls w)"
proof (induction fs arbitrary: w)
  case Nil
  then show ?case by simp
next
  case (Cons f fs)
  obtain path content message where f: "f = (path, content, message)"
    by (cases f)
  show ?case
  proof (cases "remote_createOrUpdateFile env cfg path content message branch")
    case None
    then show ?thesis
      by (simp add: f createOrUpdateFile_def Cons.IH log_call_def pull_requests_append)
         (simp add: pull_requests_def)
  next
    case (Some e)
    then show ?thesis
      by (simp add: f createOrUpdateFile_def log_call_def pull_requests_append)
         (simp add: pull_requests_def)
  qed
qed

lemma open_pull_request_titles:
  "set (pull_requests (calls (snd (open_pull_request env opts r reg isUpdate w))))
     \<subseteq> set (pull_requests (calls w)) \<union> {(pr_title isUpdate (r_name r), pr_body isUpdate opts r)}"
proof -
  obtain branch w1 where g: "generateBranchName (clock env) (domain opts) (r_name r) w = (branch, w1)"
    by (cases "generateBranchName (clock env) (domain opts) (r_name r) w")
  then have c1: "calls w1 = calls w"
    by (auto simp: generateBranchName_def new_Date_toISOString_def Let_def)
  let ?files = "pr_files env isUpdate opts r (heap w1) reg"
  let ?w2 = "log_call (CreateBranch branch (r_base r)) w1"
  have p2: "pull_requests (calls ?w2) = pull_requests (calls w)"
    by (simp add: log_call_def c1 pull_requests_append) (simp add: pull_requests_def)
  obtain failed w3 where wf: "write_files env (r_client r) branch ?files ?w2 = (failed, w3)"
    by (cases "write_files env (r_client r) branch ?files ?w2")
  from write_files_pull_requests[of env "r_client r" branch ?files ?w2] wf p2
  have p3: "pull_requests (calls w3) = pull_requests (calls w)" by simp
  let ?w4 = "log_call (CreatePullRequest (pr_title isUpdate (r_name r)) (pr_body isUpdate opts r)
               branch (r_base r)) w3"
  have p4: "pull_requests (calls ?w4)
      = pull_requests (calls w) @ [(pr_title isUpdate (r_name r), pr_body isUpdate opts r)]"
    by (simp add: log_call_def pull_requests_append p3) (simp add: pull_requests_def)
  have "snd (open_pull_request env opts r reg isUpdate w) \<in> {w1, ?w2, w3, ?w4}"
    by (simp add: open_pull_request_def g createBranch_def wf createPullRequest_def Let_def
        split: option.splits sum.splits prod.splits)
  then show ?thesis
    using c1 p2 p3 p4 by auto
qed

lemma publish_never_says_add:
  assumes "publishable env opts w"
  shows "\<exists>r. resolve_request env opts = Continue r
           \<and> set (pull_requests (calls (snd (publishPrd env opts w))))
               \<subseteq> set (pull_requests (calls w))
                   \<union> {(''Update PRD: '' @ r_name r, pr_body True opts r)}"
proof -
  from assms obtain r content registry w' where
    rr: "resolve_request env opts = Continue r"
    and gf: "remote_getFile env (r_client r) ''registry.json'' (r_base r) = Inr content"
    and l: "read_registry (JSON_parse env) content
           (log_call (GetFile ''registry.json'' (r_base r)) w) = (registry, w')"
    and s: "registry_shape (heap w') registry"
    by (auto simp: publishable_def split: outcome.splits sum.splits prod.splits)
  from classify_shaped[OF gf l s, of opts] obtain reg w1 where
    c: "classify env opts r w = (Inr (reg, True), w1)" by blast
  from classify_calls[of env opts r w] c
  have "pull_requests (calls w1) = pull_requests (calls w)"
    by (simp add: pull_requests_append) (simp add: pull_requests_def)
  with open_pull_request_titles[of env opts r reg True w1]
  have "set (pull_requests (calls (snd (open_pull_request env opts r reg True w1))))
      \<subseteq> set (pull_requests (calls w)) \<union> {(''Update PRD: '' @ r_name r, pr_body True opts r)}"
    by (simp add: pr_title_def)
  moreover have "snd (publishPrd env opts w) = snd (open_pull_request env opts r reg True w1)"
    by (simp add: publishPrd_def rr c split: prod.splits sum.splits)
  ultimately show ?thesis using rr by simp
qed

text \<open>
  C1. The title and the body of the pull request are meant to say \<open>Add\<close> for a product
  the fetched registry does not list. With no \<open>registry.json\<close> in the central repository
  the registry is loaded without any item, and still the pull request for product Foo is
  titled \<open>Update PRD: Foo\<close>: \<open>isUpdate\<close> is read from the array the upsert has already
  written to. No registry of the specified shape leads to a pull request that says
  \<open>Add\<close> (\<open>publish_never_says_add\<close>).
\<close>

theorem publish_says_update_for_new_product:
  "remote_getFile absent_env \<lparr>token = ''token'', owner = ''gnyanee97'', repo = ''vulcan-prds''\<rparr>
       ''registry.json'' ''main'' = Inr None
   \<and> items_of (heap (snd (read_registry (JSON_parse absent_env) None empty_world)))
        (fst (read_registry (JSON_parse absent_env) None empty_world)) = []
   \<and> success (fst (publishPrd absent_env (sample_options False None) empty_world))
   \<and> pull_requests (calls (snd (publishPrd absent_env (sample_options False None) empty_world)))
       = [(''Update PRD: Foo'',
           join [CHR 0x0A]
             [''## Update PRD: Foo'',
              ''**Domain:** analytics'',
              ''This PR updates a data product PRD to the central repository.'',
              ''### Changes'',
              ''- Updated PRD file: `prds/analytics/foo.md`'',
              ''- Updated `registry.json` with PRD metadata'',
              ''### Next Steps'',
              ''- Review PRD content'',
              ''- Merge PR to add to index'',
              ''- PRD will be automatically indexed after merge''])]"
  by code_simp

text \<open>
  C9. A dry run never writes to the remote repository, and when it reports success the
  result has the dry-run marker and neither a number nor a URL of a pull request. It
  does not succeed on every request: everything up to the check of the flag runs as in a
  real publish and can fail, the resolution of the target repository for one. It
  succeeds when the request resolves, the registry can be fetched and has the specified
  shape.
\<close>

theorem dry_run_publish:
  assumes d: "dryRun opts = Some True"
  shows "filter is_write_call (calls (snd (publishPrd env opts w))) = filter is_write_call (calls w)
       \<and> (success (fst (publishPrd env opts w)) \<longrightarrow> fst (publishPrd env opts w) = dry_run_success)
       \<and> (publishable env opts w \<longrightarrow> fst (publishPrd env opts w) = dry_run_success)"
proof (cases "resolve_request env opts")
  case (Throw e)
  then show ?thesis
    by (simp add: publishPrd_def publishable_def failure_not_success)
next
  case (Return res)
  then show ?thesis
    by (simp add: publishPrd_def publishable_def resolve_request_Return)
next
  case (Continue r)
  obtain cl w1 where c: "classify env opts r w = (cl, w1)"
    by (cases "classify env opts r w")
  from classify_calls[of env opts r w] c
  have c1: "calls w1 = calls w @ [GetFile ''registry.json'' (r_base r)]" by simp
  then have f1: "filter is_write_call (calls w1) = filter is_write_call (calls w)"
    by (simp add: is_write_call_def)
  show ?thesis
  proof (cases cl)
    case (Inl e)
    then have p: "publishPrd env opts w = (caught e, w1)"
      by (simp add: publishPrd_def Continue c)
    have "\<not> publishable env opts w"
    proof
      assume "publishable env opts w"
      then obtain content registry w' where
        "remote_getFile env (r_client r) ''registry.json'' (r_base r) = Inr content"
        "read_registry (JSON_parse env) content
           (log_call (GetFile ''registry.json'' (r_base r)) w) = (registry, w')"
        "registry_shape (heap w') registry"
        by (auto simp: publishable_def Continue split: sum.splits prod.splits)
      from classify_shaped[OF this, of opts] c Inl show False by simp
    qed
    with p f1 show ?thesis by (simp add: failure_not_success)
  next
    case (Inr x)
    obtain reg isUpdate where x: "x = (reg, isUpdate)" by (cases x)
    from dry_run_open[OF d, of env r reg isUpdate w1] obtain w2 where
      o: "open_pull_request env opts r reg isUpdate w1 = (Inr dry_run_success, w2)"
      and c2: "calls w2 = calls w1" by blast
    have "publishPrd env opts w = (dry_run_success, w2)"
      by (simp add: publishPrd_def Continue c Inr x o)
    with f1 c2 show ?thesis by simp
  qed
qed

theorem dry_run_publish_witness:
  "dryRun (sample_options True None) = Some True
   \<and> publishable absent_env (sample_options True None) empty_world
   \<and> fst (publishPrd absent_env (sample_options True None) empty_world) = dry_run_success
   \<and> filter is_write_call (calls (snd (publishPrd absent_env (sample_options True None)
        empty_world))) = []"
proof -
  have d: "dryRun (sample_options True None) = Some True"
    by (simp add: sample_options_def)
  have p: "publishable absent_env (sample_options True None) empty_world"
    by code_simp
  from dry_run_publish[OF d, of absent_env empty_world] d p show ?thesis
    by (simp add: empty_world_def)
qed

theorem dry_run_publish_can_fail:
  "dryRun (sample_options True (Some ''vulcan-prds'')) = Some True
   \<and> validatePrdFile (readFileSync absent_env)
        (prd_file (sample_options True (Some ''vulcan-prds''))) = (True, [])
   \<and> \<not> success (fst (publishPrd absent_env (sample_options True (Some ''vulcan-prds''))
          empty_world))
   \<and> error (fst (publishPrd absent_env (sample_options True (Some ''vulcan-prds''))
          empty_world))
       = Some (''Invalid repo format: vulcan-prds. Use '' @ [CHR 0x22] @ ''owner/repo''
               @ [CHR 0x22] @ '' or full GitHub URL'')"
  by code_simp

text \<open>
  The check that follows the upsert has no branch for a registry without an \<open>items\<close>
  array, although the upsert has one: the call ends in the \<open>catch\<close> block.
\<close>

lemma publish_without_items_array:
  "fst (publishPrd odd_env (sample_options True None) empty_world)
     = failure ''registry.items.some is not a function''
   \<and> calls (snd (publishPrd odd_env (sample_options True None) empty_world))
     = [GetFile ''registry.json'' ''main'']"
  by code_simp

end
